theory Spec2Isabelle
  imports Complex_Main
begin

section \<open>JavaScript strings\<close>

text \<open>
  A JavaScript string is a sequence of UTF-16 code units; \<open>length\<close>, \<open>substring\<close>,
  \<open>trim\<close> and regular expressions without the \<open>u\<close> flag all work on code units.
  A code unit is modelled by its number.  Date values are integers (milliseconds since the epoch).
\<close>

type_synonym jschar = nat
type_synonym jsstring = "jschar list"

definition asc :: "string \<Rightarrow> jsstring" where
  \<comment> \<open>an ASCII literal of the source as code units\<close>
  "asc s = map of_char s"

definition isLineTerminator :: "jschar \<Rightarrow> bool" where
  \<comment> \<open>LF, CR, U+2028, U+2029\<close>
  "isLineTerminator c = (c = 10 \<or> c = 13 \<or> c = 8232 \<or> c = 8233)"

definition isWhiteSpace :: "jschar \<Rightarrow> bool" where
  \<comment> \<open>what \<open>\s\<close> and \<open>trim\<close> treat as blank: WhiteSpace and LineTerminator of ECMAScript\<close>
  "isWhiteSpace c = (c = 9 \<or> c = 10 \<or> c = 11 \<or> c = 12 \<or> c = 13 \<or> c = 32 \<or> c = 160
     \<or> c = 5760 \<or> (8192 \<le> c \<and> c \<le> 8202) \<or> c = 8232 \<or> c = 8233 \<or> c = 8239
     \<or> c = 8287 \<or> c = 12288 \<or> c = 65279)"

definition isWordChar :: "jschar \<Rightarrow> bool" where
  \<comment> \<open>\<open>\w\<close> is \<open>[A-Za-z0-9_]\<close>\<close>
  "isWordChar c = ((48 \<le> c \<and> c \<le> 57) \<or> (65 \<le> c \<and> c \<le> 90) \<or> c = 95 \<or> (97 \<le> c \<and> c \<le> 122))"

definition isDigit :: "jschar \<Rightarrow> bool" where
  "isDigit c = (48 \<le> c \<and> c \<le> 57)"

definition js_trim :: "jsstring \<Rightarrow> jsstring" where
  "js_trim s = rev (dropWhile isWhiteSpace (rev (dropWhile isWhiteSpace s)))"

definition js_substring :: "jsstring \<Rightarrow> int \<Rightarrow> int \<Rightarrow> jsstring" where
  \<comment> \<open>\<open>s.substring(a, b)\<close>: both indices are clamped to \<open>[0, length]\<close> and swapped when \<open>a > b\<close>\<close>
  "js_substring s a b =
     (let n = int (length s);
          a' = max 0 (min a n);
          b' = max 0 (min b n);
          lo = min a' b';
          hi = max a' b'
      in take (nat (hi - lo)) (drop (nat lo) s))"

definition js_substring_from :: "jsstring \<Rightarrow> int \<Rightarrow> jsstring" where
  \<comment> \<open>\<open>s.substring(a)\<close>: the end index defaults to the length\<close>
  "js_substring_from s a = js_substring s a (int (length s))"

definition slice :: "jsstring \<Rightarrow> nat \<Rightarrow> nat \<Rightarrow> jsstring" where
  \<comment> \<open>the code units from index \<open>a\<close> up to, not including, index \<open>b\<close>\<close>
  "slice s a b = take (b - a) (drop a s)"

fun split_on :: "jschar \<Rightarrow> jsstring \<Rightarrow> jsstring list" where
  \<comment> \<open>\<open>s.split(sep)\<close> for a separator of one code unit\<close>
  "split_on sep [] = [[]]"
| "split_on sep (c # cs) =
     (if c = sep then [] # split_on sep cs
      else (case split_on sep cs of p # ps \<Rightarrow> (c # p) # ps | [] \<Rightarrow> [[c]]))"

fun join_with :: "jsstring \<Rightarrow> jsstring list \<Rightarrow> jsstring" where
  \<comment> \<open>\<open>xs.join(sep)\<close>\<close>
  "join_with sep [] = []"
| "join_with sep [x] = x"
| "join_with sep (x # y # ys) = x @ sep @ join_with sep (y # ys)"

fun is_infix :: "jsstring \<Rightarrow> jsstring \<Rightarrow> bool" where
  \<comment> \<open>\<open>s.includes(l)\<close>\<close>
  "is_infix l [] = (l = [])"
| "is_infix l (c # cs) = (take (length l) (c # cs) = l \<or> is_infix l cs)"

fun digits_of :: "nat \<Rightarrow> nat \<Rightarrow> jsstring" where
  \<comment> \<open>decimal digits of a natural number, most significant first; the first argument bounds the
      number of digits\<close>
  "digits_of 0 n = []"
| "digits_of (Suc f) n = (if n < 10 then [48 + n] else digits_of f (n div 10) @ [48 + n mod 10])"

definition js_nat_to_string :: "nat \<Rightarrow> jsstring" where
  \<comment> \<open>the string a template literal gives for a non-negative integer\<close>
  "js_nat_to_string n = digits_of (Suc n) n"

datatype js_error = TypeError

definition objectPrototypeKeys :: "jsstring list" where
  \<comment> \<open>the property names every plain object \<open>{}\<close> inherits from \<open>Object.prototype\<close>;
      reading one of them from an object used as a dictionary gives a function (or, for
      \<open>__proto__\<close>, the prototype object), not \<open>undefined\<close>\<close>
  "objectPrototypeKeys = map asc
     [''constructor'', ''__defineGetter__'', ''__defineSetter__'', ''hasOwnProperty'',
      ''__lookupGetter__'', ''__lookupSetter__'', ''isPrototypeOf'', ''propertyIsEnumerable'',
      ''toString'', ''valueOf'', ''__proto__'', ''toLocaleString'']"

section \<open>Regular expressions\<close>

text \<open>
  Every regular expression of the modelled functions is a sequence of literals, anchors and
  quantified character classes (no nested quantifier).  Such an expression is written as a list
  of items and matched by backtracking in the order ECMAScript prescribes: a greedy quantifier
  tries the longest repetition first, a lazy one the shortest first.  \<open>Mark\<close> records the current
  index; a capture group is a pair of marks around its items.
\<close>

datatype cls = Dot | Space | AnyChar | Word | Digit | OneOf "jschar list" | NoneOf "jschar list"

fun cls_ok :: "cls \<Rightarrow> jschar \<Rightarrow> bool" where
  "cls_ok Dot c = (\<not> isLineTerminator c)"
| "cls_ok Space c = isWhiteSpace c"
| "cls_ok AnyChar c = True"
| "cls_ok Word c = isWordChar c"
| "cls_ok Digit c = isDigit c"
| "cls_ok (OneOf cs) c = (c \<in> set cs)"
| "cls_ok (NoneOf cs) c = (c \<notin> set cs)"

datatype quant = Greedy | Lazy

datatype item =
    Rep cls nat "nat option" quant  \<comment> \<open>class, least and greatest number of repetitions\<close>
  | Lit jsstring
  | AltLit "jsstring list"          \<comment> \<open>\<open>(a|b|c)\<close> over literals, tried left to right\<close>
  | Mark
  | Bol bool                        \<comment> \<open>\<open>^\<close>; the flag is the \<open>m\<close> flag\<close>
  | Eol bool                        \<comment> \<open>\<open>$\<close>; the flag is the \<open>m\<close> flag\<close>
  | WordB                           \<comment> \<open>\<open>\b\<close>\<close>
  | NlOrEol                         \<comment> \<open>\<open>(?:\n|$)\<close> without the \<open>m\<close> flag\<close>

fun avail :: "cls \<Rightarrow> nat option \<Rightarrow> jsstring \<Rightarrow> nat" where
  \<comment> \<open>how many leading code units are in the class, at most the upper bound\<close>
  "avail c hi [] = 0"
| "avail c hi (x # xs) =
     (if hi = Some 0 \<or> \<not> cls_ok c x then 0
      else Suc (avail c (map_option (\<lambda>h. h - 1) hi) xs))"

definition prev_after :: "jschar option \<Rightarrow> jsstring \<Rightarrow> nat \<Rightarrow> jschar option" where
  \<comment> \<open>the code unit before the current index once \<open>k\<close> units of \<open>rest\<close> are consumed\<close>
  "prev_after prev rest k = (if k = 0 then prev else Some (rest ! (k - 1)))"

definition at_bol :: "bool \<Rightarrow> jschar option \<Rightarrow> bool" where
  "at_bol ml prev = (case prev of None \<Rightarrow> True | Some c \<Rightarrow> ml \<and> isLineTerminator c)"

definition at_eol :: "bool \<Rightarrow> jsstring \<Rightarrow> bool" where
  "at_eol ml rest = (case rest of [] \<Rightarrow> True | c # _ \<Rightarrow> ml \<and> isLineTerminator c)"

definition at_wordb :: "jschar option \<Rightarrow> jsstring \<Rightarrow> bool" where
  "at_wordb prev rest =
     ((case prev of None \<Rightarrow> False | Some c \<Rightarrow> isWordChar c) \<noteq>
      (case rest of [] \<Rightarrow> False | c # _ \<Rightarrow> isWordChar c))"

definition counts :: "quant \<Rightarrow> nat \<Rightarrow> nat \<Rightarrow> nat list" where
  \<comment> \<open>the repetition counts between \<open>lo\<close> and \<open>n\<close> in the order they are tried\<close>
  "counts q lo n = (case q of Greedy \<Rightarrow> rev [lo..<Suc n] | Lazy \<Rightarrow> [lo..<Suc n])"

fun first_some :: "('a \<Rightarrow> 'b option) \<Rightarrow> 'a list \<Rightarrow> 'b option" where
  "first_some f [] = None"
| "first_some f (x # xs) = (case f x of Some y \<Rightarrow> Some y | None \<Rightarrow> first_some f xs)"

text \<open>
  \<open>rmatch re prev rest p ms\<close> matches \<open>re\<close> at index \<open>p\<close>, where \<open>rest\<close> is the input from
  \<open>p\<close> on and \<open>prev\<close> the code unit before it; the result is the end index and the marks.
\<close>

primrec rmatch :: "item list \<Rightarrow> jschar option \<Rightarrow> jsstring \<Rightarrow> nat \<Rightarrow> nat list \<Rightarrow> (nat \<times> nat list) option" where
  "rmatch [] = (\<lambda>prev rest p ms. Some (p, ms))"
| "rmatch (it # r) = (\<lambda>prev rest p ms.
     case it of
       Mark \<Rightarrow> rmatch r prev rest p (ms @ [p])
     | Bol ml \<Rightarrow> if at_bol ml prev then rmatch r prev rest p ms else None
     | Eol ml \<Rightarrow> if at_eol ml rest then rmatch r prev rest p ms else None
     | WordB \<Rightarrow> if at_wordb prev rest then rmatch r prev rest p ms else None
     | Lit l \<Rightarrow>
         if take (length l) rest = l
         then rmatch r (prev_after prev rest (length l)) (drop (length l) rest) (p + length l) ms
         else None
     | AltLit ls \<Rightarrow>
         first_some (\<lambda>l. if take (length l) rest = l
              then rmatch r (prev_after prev rest (length l)) (drop (length l) rest) (p + length l) ms
              else None) ls
     | NlOrEol \<Rightarrow>
         (case (case rest of c # rest' \<Rightarrow> if c = 10 then rmatch r (Some c) rest' (Suc p) ms else None
                           | [] \<Rightarrow> None) of
            Some res \<Rightarrow> Some res
          | None \<Rightarrow> if rest = [] then rmatch r prev rest p ms else None)
     | Rep c lo hi q \<Rightarrow>
         (let n = avail c hi rest in
          if n < lo then None
          else first_some (\<lambda>k. rmatch r (prev_after prev rest k) (drop k rest) (p + k) ms)
                 (counts q lo n)))"

text \<open>A match: start index, end index, marks.\<close>

type_synonym rmatch_result = "nat \<times> nat \<times> nat list"

fun rsearch :: "item list \<Rightarrow> jschar option \<Rightarrow> jsstring \<Rightarrow> nat \<Rightarrow> rmatch_result option" where
  \<comment> \<open>the leftmost match at or after index \<open>p\<close>\<close>
  "rsearch re prev [] p = (case rmatch re prev [] p [] of Some (e, ms) \<Rightarrow> Some (p, e, ms) | None \<Rightarrow> None)"
| "rsearch re prev (c # rest) p =
     (case rmatch re prev (c # rest) p [] of
        Some (e, ms) \<Rightarrow> Some (p, e, ms)
      | None \<Rightarrow> rsearch re (Some c) rest (Suc p))"

definition re_exec :: "item list \<Rightarrow> jsstring \<Rightarrow> rmatch_result option" where
  \<comment> \<open>\<open>s.match(re)\<close> and \<open>re.exec(s)\<close> without the \<open>g\<close> flag\<close>
  "re_exec re s = rsearch re None s 0"

definition re_test :: "item list \<Rightarrow> jsstring \<Rightarrow> bool" where
  "re_test re s = (re_exec re s \<noteq> None)"

definition matched :: "jsstring \<Rightarrow> rmatch_result \<Rightarrow> jsstring" where
  \<comment> \<open>\<open>m[0]\<close>\<close>
  "matched s m = (case m of (st, en, ms) \<Rightarrow> slice s st en)"

definition capture :: "jsstring \<Rightarrow> rmatch_result \<Rightarrow> nat \<Rightarrow> jsstring option" where
  \<comment> \<open>\<open>m[k]\<close> for \<open>k \<ge> 1\<close>: \<open>None\<close> is \<open>undefined\<close>\<close>
  "capture s m k =
     (case m of (st, en, ms) \<Rightarrow>
        if 1 \<le> k \<and> 2 * k \<le> length ms then Some (slice s (ms ! (2 * k - 2)) (ms ! (2 * k - 1)))
        else None)"

fun re_scan :: "item list \<Rightarrow> jschar option \<Rightarrow> jsstring \<Rightarrow> nat \<Rightarrow> nat \<Rightarrow> rmatch_result list" where
  \<comment> \<open>all matches with the \<open>g\<close> flag, left to right: after a match the search resumes at its
      end (one further after an empty match); \<open>skip\<close> counts the units still inside the last match\<close>
  "re_scan re prev [] q skip =
     (if skip > 0 then []
      else case rmatch re prev [] q [] of Some (e, ms) \<Rightarrow> [(q, e, ms)] | None \<Rightarrow> [])"
| "re_scan re prev (c # rest) q skip =
     (if skip > 0 then re_scan re (Some c) rest (Suc q) (skip - 1)
      else case rmatch re prev (c # rest) q [] of
             Some (e, ms) \<Rightarrow> (q, e, ms) # re_scan re (Some c) rest (Suc q) (e - q - 1)
           | None \<Rightarrow> re_scan re (Some c) rest (Suc q) 0)"

definition re_match_all :: "item list \<Rightarrow> jsstring \<Rightarrow> jsstring list" where
  \<comment> \<open>\<open>s.match(re)\<close> with the \<open>g\<close> flag; the empty list stands for \<open>null\<close>\<close>
  "re_match_all re s = map (matched s) (re_scan re None s 0 0)"

fun replace_go :: "jsstring \<Rightarrow> jsstring \<Rightarrow> nat \<Rightarrow> rmatch_result list \<Rightarrow> jsstring" where
  "replace_go repl s p [] = drop p s"
| "replace_go repl s p ((st, en, ms) # more) = slice s p st @ repl @ replace_go repl s en more"

definition re_replace_all :: "item list \<Rightarrow> jsstring \<Rightarrow> jsstring \<Rightarrow> jsstring" where
  \<comment> \<open>\<open>s.replace(re, repl)\<close> with the \<open>g\<close> flag and a replacement without \<open>$\<close> patterns\<close>
  "re_replace_all re repl s = replace_go repl s 0 (re_scan re None s 0 0)"

text \<open>
  \<open>s.split(re)\<close>: \<open>p\<close> is the start of the current piece, \<open>q\<close> the index tried, \<open>acc\<close> the piece
  so far (reversed).  A match at \<open>q\<close> that ends at \<open>p\<close> is skipped; the end of the input is never
  tried.  The expressions split on here have no capture group.
\<close>

fun re_split_go :: "item list \<Rightarrow> jschar option \<Rightarrow> jsstring \<Rightarrow> nat \<Rightarrow> nat \<Rightarrow> jsstring \<Rightarrow> nat \<Rightarrow> jsstring list" where
  "re_split_go re prev [] q p acc skip = [rev acc]"
| "re_split_go re prev (c # rest) q p acc skip =
     (if skip > 0 then re_split_go re (Some c) rest (Suc q) p acc (skip - 1)
      else case rmatch re prev (c # rest) q [] of
             None \<Rightarrow> re_split_go re (Some c) rest (Suc q) p (c # acc) 0
           | Some (e, ms) \<Rightarrow>
               if e = p then re_split_go re (Some c) rest (Suc q) p (c # acc) 0
               else if e = q then rev acc # re_split_go re (Some c) rest (Suc q) q [c] 0
               else rev acc # re_split_go re (Some c) rest (Suc q) e [] (e - q - 1))"

definition re_split :: "item list \<Rightarrow> jsstring \<Rightarrow> jsstring list" where
  "re_split re s =
     (if s = [] then (case rmatch re None [] 0 [] of Some _ \<Rightarrow> [] | None \<Rightarrow> [[]])
      else re_split_go re None s 0 0 [] 0)"

fun count_marks :: "item list \<Rightarrow> nat" where
  \<comment> \<open>the number of marks of an expression: twice its number of capture groups\<close>
  "count_marks [] = 0"
| "count_marks (it # r) = (if it = Mark then Suc (count_marks r) else count_marks r)"

section \<open>Rate limiter\<close>

text \<open>
  \<open>RATE_LIMITS\<close> and the class \<open>RateLimiter\<close>.  The two fields are plain objects used as
  dictionaries from model id to an array of numbers; \<open>Date.now()\<close> is passed in as \<open>now\<close>.
  A key inherited from \<open>Object.prototype\<close> reads as a function, which has neither \<open>filter\<close>
  nor \<open>push\<close>: the call raises a \<open>TypeError\<close>.
\<close>

record Limits =
  rpm :: nat
  tpm :: int

definition RATE_LIMITS :: "jsstring \<Rightarrow> Limits option" where
  "RATE_LIMITS model =
     (if model = asc ''gemini-2.5-pro'' then Some \<lparr>rpm = 2, tpm = 32000\<rparr>
      else if model = asc ''gemini-2.5-flash'' then Some \<lparr>rpm = 15, tpm = 1000000\<rparr>
      else None)"

record RateLimiter =
  requests :: "jsstring \<Rightarrow> int list option"
  tokens :: "jsstring \<Rightarrow> int list option"

definition newRateLimiter :: RateLimiter where
  "newRateLimiter = \<lparr>requests = (\<lambda>_. None), tokens = (\<lambda>_. None)\<rparr>"

definition oneMinute :: int where
  "oneMinute = 60 * 1000"

definition orEmpty :: "int list option \<Rightarrow> int list" where
  \<comment> \<open>\<open>if (!this.xs[model]) this.xs[model] = []\<close> followed by a read\<close>
  "orEmpty v = (case v of None \<Rightarrow> [] | Some xs \<Rightarrow> xs)"

definition canMakeRequest :: "RateLimiter \<Rightarrow> int \<Rightarrow> jsstring \<Rightarrow> int \<Rightarrow> js_error + (bool \<times> RateLimiter)" where
  "canMakeRequest rl now model estimatedTokens =
     (if model \<in> set objectPrototypeKeys then Inl TypeError
      else
        let reqs = filter (\<lambda>time. now - time < oneMinute) (orEmpty (requests rl model));
            toks = filter (\<lambda>time. now - time < oneMinute) (orEmpty (tokens rl model));
            rl' = rl\<lparr>requests := (requests rl)(model \<mapsto> reqs), tokens := (tokens rl)(model \<mapsto> toks)\<rparr>
        in case RATE_LIMITS model of
             None \<Rightarrow> Inr (False, rl')
           | Some limits \<Rightarrow>
               Inr (length reqs < rpm limits \<and> sum_list toks + estimatedTokens < tpm limits, rl'))"

definition recordRequest :: "RateLimiter \<Rightarrow> int \<Rightarrow> jsstring \<Rightarrow> int \<Rightarrow> js_error + RateLimiter" where
  "recordRequest rl now model toks =
     (if model \<in> set objectPrototypeKeys then Inl TypeError
      else Inr (rl\<lparr>requests := (requests rl)(model \<mapsto> orEmpty (requests rl model) @ [now]),
                   tokens := (tokens rl)(model \<mapsto> orEmpty (tokens rl model) @ [toks])\<rparr>))"

section \<open>Data model\<close>

text \<open>
  The interfaces \<open>AISuggestion\<close>, \<open>SEOMetrics\<close> and \<open>PromptHistory\<close>.  Field names that are
  Isabelle keywords or constants carry a prime; the nested objects \<open>categories\<close>, \<open>tags\<close> and
  \<open>structure\<close> are flattened.  An optional field is an \<open>option\<close>.
\<close>

record Heading =
  level :: nat
  text' :: jsstring
  description :: jsstring

record FullArticle =
  introduction :: jsstring
  mainContent :: jsstring
  conclusion :: jsstring

record AISuggestion =
  titles :: "jsstring list"
  categories_existing :: "nat list"
  categories_new :: "jsstring list"
  tags_existing :: "nat list"
  tags_new :: "jsstring list"
  headings :: "Heading list"
  metaDescriptions :: "jsstring list"
  content :: "jsstring option"
  fullArticle :: "FullArticle option"

text \<open>
  A keyword entry.  \<open>frequency\<close> is \<open>None\<close> when the value read from the word table is not a
  number (see \<open>wc_get\<close>); \<open>density\<close> is \<open>None\<close> for \<open>NaN\<close>.
\<close>

record KeywordStat =
  term' :: jsstring
  frequency :: "nat option"
  density :: "rat option"

record HeadingCount =
  h1 :: nat
  h2 :: nat
  h3 :: nat
  h4 :: nat
  h5 :: nat
  h6 :: nat

record SEOMetrics =
  seo_id :: jsstring
  seo_articleId :: jsstring
  titleLength :: nat
  metaDescriptionLength :: nat
  wordCount :: nat
  headingCount :: HeadingCount
  keywords' :: "KeywordStat list"
  overallScore :: int
  titleScore :: int
  metaDescriptionScore :: int
  contentStructureScore :: int
  keywordOptimizationScore :: int
  recommendations :: "jsstring list"
  calculatedAt :: int

datatype ArticleStatus = draft | ready_to_publish | published

record ResultingArticle =
  articleId :: jsstring
  title :: jsstring
  status :: ArticleStatus
  createdAt :: jsstring

record FileInfo =
  filename :: jsstring
  fileSize :: nat
  fileWordCount :: nat

text \<open>The argument of \<open>addPromptHistory\<close>; a \<open>PromptHistory\<close> has these fields and six more.\<close>

record PromptData =
  originalPrompt :: jsstring
  userInput :: jsstring
  fileInfo :: "FileInfo option"
  modelUsed :: jsstring
  temperature :: "rat option"
  maxTokens :: "nat option"
  suggestion :: AISuggestion
  processingTime :: "nat option"
  tokensUsed :: nat
  estimatedCost :: rat
  siteId :: jsstring
  userId :: "jsstring option"

record PromptHistory = PromptData +
  id' :: jsstring
  generatedAt :: int  \<comment> \<open>the time the ISO string stands for\<close>
  resultingArticles :: "ResultingArticle list"
  seoMetrics :: "SEOMetrics option"
  userRating :: "nat option"
  userNotes :: "jsstring option"

section \<open>Parsing the generated article\<close>

text \<open>
  \<open>parseMarkdownArticle\<close>.  The body of its \<open>try\<close> block is \<open>parse_try\<close>; the only operations in
  it that can raise are method calls on a value that may be \<open>undefined\<close> (a capture group, an
  array element), and each of them is a branch to \<open>TypeError\<close> here.  The \<open>catch\<close> block is the
  \<open>Inl\<close> case of \<open>parseMarkdownArticle\<close>.
\<close>

definition bind_err :: "js_error + 'a \<Rightarrow> ('a \<Rightarrow> js_error + 'b) \<Rightarrow> js_error + 'b" where
  "bind_err m f = (case m of Inl e \<Rightarrow> Inl e | Inr x \<Rightarrow> f x)"

definition group_of :: "jsstring \<Rightarrow> rmatch_result \<Rightarrow> nat \<Rightarrow> js_error + jsstring" where
  \<comment> \<open>\<open>m[k]\<close> as the receiver of a method call\<close>
  "group_of s m k = (case capture s m k of None \<Rightarrow> Inl TypeError | Some g \<Rightarrow> Inr g)"

definition nth_opt :: "'a list \<Rightarrow> nat \<Rightarrow> 'a option" where
  \<comment> \<open>\<open>xs[i]\<close>: \<open>None\<close> is \<open>undefined\<close>\<close>
  "nth_opt xs i = (if i < length xs then Some (xs ! i) else None)"

fun collect_err :: "('a \<Rightarrow> js_error + 'b list) \<Rightarrow> 'a list \<Rightarrow> js_error + 'b list" where
  \<comment> \<open>a \<open>forEach\<close> whose body pushes to an array and may raise\<close>
  "collect_err f [] = Inr []"
| "collect_err f (x # xs) =
     bind_err (f x) (\<lambda>ys. bind_err (collect_err f xs) (\<lambda>zs. Inr (ys @ zs)))"

definition title_re :: "item list" where
  \<comment> \<open>\<open>/^#\s+(.+)$/m\<close>\<close>
  "title_re = [Bol True, Lit (asc ''#''), Rep Space 1 None Greedy,
               Mark, Rep Dot 1 None Greedy, Mark, Eol True]"

definition labeled_re :: "jsstring \<Rightarrow> item list" where
  \<comment> \<open>\<open>/\*\*LABEL:\*\*\s*(.+?)(?:\n|$)/\<close>\<close>
  "labeled_re label = [Lit (asc ''**'' @ label @ asc '':**''), Rep Space 0 None Greedy,
                       Mark, Rep Dot 1 None Lazy, Mark, NlOrEol]"

definition meta_label :: jsstring where
  "meta_label = [0x30E1, 0x30BF, 0x30C7, 0x30A3, 0x30B9, 0x30AF, 0x30EA, 0x30D7, 0x30B7, 0x30E7, 0x30F3]"

definition category_label :: jsstring where
  "category_label = [0x63A8, 0x5968, 0x30AB, 0x30C6, 0x30B4, 0x30EA, 0x30FC]"

definition tag_label :: jsstring where
  "tag_label = [0x63A8, 0x5968, 0x30BF, 0x30B0]"

definition content_re :: "item list" where
  \<comment> \<open>\<open>/---\s*\n([\s\S]*)/\<close>\<close>
  "content_re = [Lit (asc ''---''), Rep Space 0 None Greedy, Lit [10],
                 Mark, Rep AnyChar 0 None Greedy, Mark]"

definition heading_re :: "bool \<Rightarrow> item list" where
  \<comment> \<open>\<open>/^(#{2,6})\s+(.+)$/\<close>, with the \<open>m\<close> flag or without\<close>
  "heading_re ml = [Bol ml, Mark, Rep (OneOf (asc ''#'')) 2 (Some 6) Greedy, Mark,
                    Rep Space 1 None Greedy, Mark, Rep Dot 1 None Greedy, Mark, Eol ml]"

definition section_re :: "item list" where
  \<comment> \<open>\<open>/^#{2,6}\s+/m\<close>\<close>
  "section_re = [Bol True, Rep (OneOf (asc ''#'')) 2 (Some 6) Greedy, Rep Space 1 None Greedy]"

definition bracket_re :: "item list" where
  \<comment> \<open>\<open>/[\[\]]/\<close>\<close>
  "bracket_re = [Rep (OneOf (asc ''[]'')) 1 (Some 1) Greedy]"

definition default_title :: jsstring where
  "default_title = [0x751F, 0x6210, 0x3055, 0x308C, 0x305F, 0x8A18, 0x4E8B]"

definition description_suffix :: jsstring where
  "description_suffix = [0x306B, 0x95A2, 0x3059, 0x308B, 0x8A73, 0x7D30, 0x306A, 0x89E3, 0x8AAC]"

definition parse_failed :: jsstring where
  "parse_failed = [0x8A18, 0x4E8B, 0x306E, 0x89E3, 0x6790, 0x306B, 0x5931, 0x6557, 0x3057, 0x307E, 0x3057, 0x305F]"

definition extractTitle :: "jsstring \<Rightarrow> js_error + jsstring" where
  "extractTitle text =
     (case re_exec title_re text of
        None \<Rightarrow> Inr default_title
      | Some titleMatch \<Rightarrow> bind_err (group_of text titleMatch 1) (\<lambda>g. Inr (js_trim g)))"

definition extractMetaDescription :: "jsstring \<Rightarrow> js_error + jsstring" where
  "extractMetaDescription text =
     (case re_exec (labeled_re meta_label) text of
        None \<Rightarrow> Inr []
      | Some metaMatch \<Rightarrow> bind_err (group_of text metaMatch 1) (\<lambda>g. Inr (js_trim g)))"

definition extractNames :: "jsstring \<Rightarrow> jsstring \<Rightarrow> js_error + jsstring list" where
  \<comment> \<open>the category names and the tag names, before empty names are filtered out\<close>
  "extractNames label text =
     (case re_exec (labeled_re label) text of
        None \<Rightarrow> Inr []
      | Some m \<Rightarrow>
          bind_err (group_of text m 1)
            (\<lambda>g. Inr (map (\<lambda>c. re_replace_all bracket_re [] (js_trim c)) (split_on 44 g))))"

definition extractFullContent :: "jsstring \<Rightarrow> js_error + jsstring" where
  "extractFullContent text =
     (case re_exec content_re text of
        None \<Rightarrow> Inr text
      | Some contentMatch \<Rightarrow> bind_err (group_of text contentMatch 1) (\<lambda>g. Inr (js_trim g)))"

definition headingOf :: "jsstring \<Rightarrow> js_error + Heading list" where
  \<comment> \<open>the body of the \<open>forEach\<close> over \<open>headingMatches\<close>: the heading pushed for one matched line\<close>
  "headingOf match =
     (case re_exec (heading_re False) match of
        None \<Rightarrow> Inr []
      | Some levelMatch \<Rightarrow>
          bind_err (group_of match levelMatch 1) (\<lambda>g1.
          bind_err (group_of match levelMatch 2) (\<lambda>g2.
            Inr [\<lparr>level = length g1, text' = js_trim g2,
                  description = js_trim g2 @ description_suffix\<rparr>])))"

definition extractHeadings :: "jsstring \<Rightarrow> js_error + Heading list" where
  "extractHeadings fullContent = collect_err headingOf (re_match_all (heading_re True) fullContent)"

definition introductionOf :: "jsstring list \<Rightarrow> jsstring" where
  \<comment> \<open>\<open>sections[0] ? sections[0].trim().substring(0, 300) : ''\<close>\<close>
  "introductionOf sections =
     (case nth_opt sections 0 of
        None \<Rightarrow> []
      | Some s0 \<Rightarrow> if s0 = [] then [] else js_substring (js_trim s0) 0 300)"

definition conclusionOf :: "jsstring list \<Rightarrow> js_error + jsstring" where
  \<comment> \<open>\<open>sections.length > 1 ? sections[sections.length - 1].trim().substring(-200) : ''\<close>\<close>
  "conclusionOf sections =
     (if length sections > 1
      then (case nth_opt sections (length sections - 1) of
              None \<Rightarrow> Inl TypeError
            | Some s \<Rightarrow> Inr (js_substring_from (js_trim s) (- 200)))
      else Inr [])"

definition parse_try :: "jsstring \<Rightarrow> js_error + AISuggestion" where
  "parse_try text =
     bind_err (extractTitle text) (\<lambda>title.
     bind_err (extractMetaDescription text) (\<lambda>metaDescription.
     bind_err (extractNames category_label text) (\<lambda>categoryNames.
     bind_err (extractNames tag_label text) (\<lambda>tagNames.
     bind_err (extractFullContent text) (\<lambda>fullContent.
     bind_err (extractHeadings fullContent) (\<lambda>hs.
     bind_err (conclusionOf (re_split section_re fullContent)) (\<lambda>concl.
       Inr \<lparr>titles = [title],
            categories_existing = [],
            categories_new = filter (\<lambda>name. length name > 0) categoryNames,
            tags_existing = [],
            tags_new = filter (\<lambda>name. length name > 0) tagNames,
            headings = hs,
            metaDescriptions = (if metaDescription = [] then [] else [metaDescription]),
            content = None,
            fullArticle = Some \<lparr>introduction = introductionOf (re_split section_re fullContent),
                                 mainContent = fullContent,
                                 conclusion = concl\<rparr>\<rparr>)))))))"

definition parse_fallback :: "jsstring \<Rightarrow> AISuggestion" where
  \<comment> \<open>the object the \<open>catch\<close> block returns\<close>
  "parse_fallback text =
     \<lparr>titles = [[0x30A8, 0x30E9, 0x30FC] @ asc '': '' @ parse_failed],
      categories_existing = [],
      categories_new = [],
      tags_existing = [],
      tags_new = [],
      headings = [],
      metaDescriptions = [parse_failed @ [0x3002]],
      content = None,
      fullArticle = Some \<lparr>introduction = [], mainContent = text, conclusion = []\<rparr>\<rparr>"

definition parseMarkdownArticle :: "jsstring \<Rightarrow> AISuggestion" where
  "parseMarkdownArticle text =
     (case parse_try text of Inr parsed \<Rightarrow> parsed | Inl error \<Rightarrow> parse_fallback text)"

text \<open>
  The notions the properties of the parser are stated with, defined on the text itself.  A
  horizontal-rule line is a line of three or more hyphens.  The delimiter the parser looks for is
  weaker: three hyphens, then blanks that include a line feed, at any place of the text.  A
  heading marker is a run of two to six \<open>#\<close> at the start of a line, followed by a blank.
\<close>

definition isRuleLine :: "jsstring \<Rightarrow> bool" where
  \<comment> \<open>the line, blanks around it apart, is three or more hyphens\<close>
  "isRuleLine l = (3 \<le> length (js_trim l) \<and> list_all (\<lambda>c. c = 45) (js_trim l))"

definition hasDelimiterLine :: "jsstring \<Rightarrow> bool" where
  "hasDelimiterLine text = list_ex isRuleLine (split_on 10 text)"

definition delimiterAt :: "jsstring \<Rightarrow> bool" where
  \<comment> \<open>the text starts with three hyphens followed by blanks that include a line feed\<close>
  "delimiterAt s = (take 3 s = asc ''---'' \<and> 10 \<in> set (takeWhile isWhiteSpace (drop 3 s)))"

fun afterFirstDelimiter :: "jsstring \<Rightarrow> jsstring option" where
  \<comment> \<open>what follows the three hyphens of the first delimiter; \<open>None\<close> when there is no delimiter\<close>
  "afterFirstDelimiter [] = None"
| "afterFirstDelimiter (c # cs) =
     (if delimiterAt (c # cs) then Some (drop 3 (c # cs)) else afterFirstDelimiter cs)"

definition bodyOf :: "jsstring \<Rightarrow> jsstring" where
  \<comment> \<open>the article body: the trimmed text after the first delimiter, the whole text without one\<close>
  "bodyOf text = (case afterFirstDelimiter text of None \<Rightarrow> text | Some rest \<Rightarrow> js_trim rest)"

definition markerAt :: "jschar option \<Rightarrow> jsstring \<Rightarrow> bool" where
  \<comment> \<open>a heading marker starts here; \<open>prev\<close> is the code unit before\<close>
  "markerAt prev s =
     ((case prev of None \<Rightarrow> True | Some c \<Rightarrow> isLineTerminator c)
      \<and> 2 \<le> length (takeWhile (\<lambda>c. c = 35) s)
      \<and> length (takeWhile (\<lambda>c. c = 35) s) \<le> 6
      \<and> (case dropWhile (\<lambda>c. c = 35) s of [] \<Rightarrow> False | c # _ \<Rightarrow> isWhiteSpace c))"

fun beforeFirstMarker :: "jschar option \<Rightarrow> jsstring \<Rightarrow> jsstring option" where
  \<comment> \<open>the text up to the first heading marker; \<open>None\<close> when there is no marker\<close>
  "beforeFirstMarker prev [] = None"
| "beforeFirstMarker prev (c # cs) =
     (if markerAt prev (c # cs) then Some []
      else map_option ((#) c) (beforeFirstMarker (Some c) cs))"

definition introductionText :: "jsstring \<Rightarrow> jsstring" where
  \<comment> \<open>the part of a body its introduction is taken from: the text before the first heading
      marker, the whole body when it has no marker\<close>
  "introductionText body = (case beforeFirstMarker None body of None \<Rightarrow> body | Some t \<Rightarrow> t)"

definition validHeading :: "Heading \<Rightarrow> bool" where
  \<comment> \<open>a heading node as the data model has it: level 2 to 6, a synthesized description\<close>
  "validHeading h = (2 \<le> level h \<and> level h \<le> 6 \<and> description h = text' h @ description_suffix)"

text \<open>
  The worked example of the specification: a title line, a meta description line, a category
  line, a tag line, the delimiter and two level-2 headings.  Its meta description is once the
  text \<open>(150-char string)\<close> as printed and once a string of 150 code units (150 times U+3042).
\<close>

definition workedExample :: jsstring where
  \<comment> \<open>the example with the meta description as printed\<close>
  "workedExample =
     [35, 32, 0x521D, 0x5FC3, 0x8005, 0x5411, 0x3051, 83, 69, 79, 0x30AC, 0x30A4, 0x30C9, 10,
      10, 42, 42, 0x30E1, 0x30BF, 0x30C7, 0x30A3, 0x30B9, 0x30AF, 0x30EA, 0x30D7, 0x30B7,
      0x30E7, 0x30F3, 58, 42, 42, 32, 40, 49, 53, 48, 45, 99, 104, 97, 114, 32, 115, 116, 114,
      105, 110, 103, 41, 10, 10, 42, 42, 0x63A8, 0x5968, 0x30AB, 0x30C6, 0x30B4, 0x30EA,
      0x30FC, 58, 42, 42, 32, 83, 69, 79, 44, 32, 0x30DE, 0x30FC, 0x30B1, 0x30C6, 0x30A3,
      0x30F3, 0x30B0, 10, 42, 42, 0x63A8, 0x5968, 0x30BF, 0x30B0, 58, 42, 42, 32, 83, 69, 79,
      44, 32, 0x521D, 0x5FC3, 0x8005, 44, 32, 0x30AC, 0x30A4, 0x30C9, 10, 10, 45, 45, 45, 10,
      10, 35, 35, 32, 83, 69, 79, 0x3068, 0x306F, 10, 0x8AAC, 0x660E, 0x6587, 10, 10, 35, 35,
      32, 0x5B9F, 0x8DF5, 0x65B9, 0x6CD5, 10, 0x624B, 0x9806, 0x306E, 0x8AAC, 0x660E]"

definition workedExample150 :: jsstring where
  \<comment> \<open>the example with a meta description of 150 code units\<close>
  "workedExample150 =
     [35, 32, 0x521D, 0x5FC3, 0x8005, 0x5411, 0x3051, 83, 69, 79, 0x30AC, 0x30A4, 0x30C9, 10,
      10, 42, 42, 0x30E1, 0x30BF, 0x30C7, 0x30A3, 0x30B9, 0x30AF, 0x30EA, 0x30D7, 0x30B7,
      0x30E7, 0x30F3, 58, 42, 42, 32, 0x3042, 0x3042, 0x3042, 0x3042, 0x3042, 0x3042, 0x3042,
      0x3042, 0x3042, 0x3042, 0x3042, 0x3042, 0x3042, 0x3042, 0x3042, 0x3042, 0x3042, 0x3042,
      0x3042, 0x3042, 0x3042, 0x3042, 0x3042, 0x3042, 0x3042, 0x3042, 0x3042, 0x3042, 0x3042,
      0x3042, 0x3042, 0x3042, 0x3042, 0x3042, 0x3042, 0x3042, 0x3042, 0x3042, 0x3042, 0x3042,
      0x3042, 0x3042, 0x3042, 0x3042, 0x3042, 0x3042, 0x3042, 0x3042, 0x3042, 0x3042, 0x3042,
      0x3042, 0x3042, 0x3042, 0x3042, 0x3042, 0x3042, 0x3042, 0x3042, 0x3042, 0x3042, 0x3042,
      0x3042, 0x3042, 0x3042, 0x3042, 0x3042, 0x3042, 0x3042, 0x3042, 0x3042, 0x3042, 0x3042,
      0x3042, 0x3042, 0x3042, 0x3042, 0x3042, 0x3042, 0x3042, 0x3042, 0x3042, 0x3042, 0x3042,
      0x3042, 0x3042, 0x3042, 0x3042, 0x3042, 0x3042, 0x3042, 0x3042, 0x3042, 0x3042, 0x3042,
      0x3042, 0x3042, 0x3042, 0x3042, 0x3042, 0x3042, 0x3042, 0x3042, 0x3042, 0x3042, 0x3042,
      0x3042, 0x3042, 0x3042, 0x3042, 0x3042, 0x3042, 0x3042, 0x3042, 0x3042, 0x3042, 0x3042,
      0x3042, 0x3042, 0x3042, 0x3042, 0x3042, 0x3042, 0x3042, 0x3042, 0x3042, 0x3042, 0x3042,
      0x3042, 0x3042, 0x3042, 0x3042, 0x3042, 0x3042, 0x3042, 0x3042, 0x3042, 0x3042, 0x3042,
      0x3042, 0x3042, 0x3042, 0x3042, 0x3042, 0x3042, 0x3042, 0x3042, 0x3042, 0x3042, 0x3042,
      10, 10, 42, 42, 0x63A8, 0x5968, 0x30AB, 0x30C6, 0x30B4, 0x30EA, 0x30FC, 58, 42, 42, 32,
      83, 69, 79, 44, 32, 0x30DE, 0x30FC, 0x30B1, 0x30C6, 0x30A3, 0x30F3, 0x30B0, 10, 42, 42,
      0x63A8, 0x5968, 0x30BF, 0x30B0, 58, 42, 42, 32, 83, 69, 79, 44, 32, 0x521D, 0x5FC3,
      0x8005, 44, 32, 0x30AC, 0x30A4, 0x30C9, 10, 10, 45, 45, 45, 10, 10, 35, 35, 32, 83, 69,
      79, 0x3068, 0x306F, 10, 0x8AAC, 0x660E, 0x6587, 10, 10, 35, 35, 32, 0x5B9F, 0x8DF5,
      0x65B9, 0x6CD5, 10, 0x624B, 0x9806, 0x306E, 0x8AAC, 0x660E]"

definition ex_title :: jsstring where
  \<comment> \<open>a string of the expected result\<close>
  "ex_title =
     [0x521D, 0x5FC3, 0x8005, 0x5411, 0x3051, 83, 69, 79, 0x30AC, 0x30A4, 0x30C9]"

definition ex_cat2 :: jsstring where
  \<comment> \<open>a string of the expected result\<close>
  "ex_cat2 =
     [0x30DE, 0x30FC, 0x30B1, 0x30C6, 0x30A3, 0x30F3, 0x30B0]"

definition ex_tag2 :: jsstring where
  \<comment> \<open>a string of the expected result\<close>
  "ex_tag2 =
     [0x521D, 0x5FC3, 0x8005]"

definition ex_tag3 :: jsstring where
  \<comment> \<open>a string of the expected result\<close>
  "ex_tag3 =
     [0x30AC, 0x30A4, 0x30C9]"

definition ex_h1 :: jsstring where
  \<comment> \<open>a string of the expected result\<close>
  "ex_h1 =
     [83, 69, 79, 0x3068, 0x306F]"

definition ex_h2 :: jsstring where
  \<comment> \<open>a string of the expected result\<close>
  "ex_h2 =
     [0x5B9F, 0x8DF5, 0x65B9, 0x6CD5]"

definition exampleBody :: jsstring where
  \<comment> \<open>the part of the example after the delimiter\<close>
  "exampleBody =
     [35, 35, 32, 83, 69, 79, 0x3068, 0x306F, 10, 0x8AAC, 0x660E, 0x6587, 10, 10, 35, 35, 32,
      0x5B9F, 0x8DF5, 0x65B9, 0x6CD5, 10, 0x624B, 0x9806, 0x306E, 0x8AAC, 0x660E]"

section \<open>Formatting a suggestion as HTML\<close>

text \<open>
  \<open>formatTextToParagraphs\<close>, \<open>splitContentByHeadings\<close> and \<open>formatFullArticleToHTML\<close> of
  \<open>contentFormatter.ts\<close>.  \<open>Math.ceil(a / b)\<close> on array lengths is the ceiling of the exact
  quotient.
\<close>

definition paragraph_re :: "item list" where
  \<comment> \<open>\<open>/\n\s*\n/\<close>\<close>
  "paragraph_re = [Lit [10], Rep Space 0 None Greedy, Lit [10]]"

definition paragraphsOf :: "jsstring \<Rightarrow> jsstring list" where
  \<comment> \<open>\<open>text.split(/\n\s*\n/).map(p => p.trim()).filter(p => p.length > 0)\<close>\<close>
  "paragraphsOf txt = filter (\<lambda>p. length p > 0) (map js_trim (re_split paragraph_re txt))"

definition formatTextToParagraphs :: "jsstring \<Rightarrow> jsstring" where
  "formatTextToParagraphs txt =
     (if txt = [] then []
      else join_with [10, 10]
             (map (\<lambda>paragraph. asc ''<p>'' @ re_replace_all [Lit [10]] (asc ''<br>'') paragraph
                                 @ asc ''</p>'')
                  (paragraphsOf txt)))"

definition splitContentByHeadings :: "jsstring \<Rightarrow> Heading list \<Rightarrow> jsstring list" where
  "splitContentByHeadings mainContent' hs =
     (let paragraphs = paragraphsOf mainContent' in
      if length paragraphs = 0 then []
      else
        let sectionsCount = length hs;
            paragraphsPerSection =
              nat \<lceil>rat_of_nat (length paragraphs) / rat_of_nat sectionsCount\<rceil>
        in map (\<lambda>i. let startIndex = i * paragraphsPerSection;
                          endIndex = min (startIndex + paragraphsPerSection) (length paragraphs)
                      in join_with [10, 10] (take (endIndex - startIndex) (drop startIndex paragraphs)))
               [0..<sectionsCount])"

definition headingTag :: "Heading \<Rightarrow> jsstring" where
  \<comment> \<open>\<open><h${heading.level}>${heading.text}</h${heading.level}>\n\<close>\<close>
  "headingTag heading =
     asc ''<h'' @ js_nat_to_string (level heading) @ asc ''>'' @ text' heading
     @ asc ''</h'' @ js_nat_to_string (level heading) @ asc ''>'' @ [10]"

definition sectionBody :: "jsstring list \<Rightarrow> Heading \<Rightarrow> nat \<Rightarrow> jsstring" where
  \<comment> \<open>the text formatted under a heading: its content section when that is a non-empty string,
      the heading's description otherwise\<close>
  "sectionBody contentSections heading index =
     (case nth_opt contentSections index of
        None \<Rightarrow> formatTextToParagraphs (description heading)
      | Some section \<Rightarrow>
          if section \<noteq> [] then formatTextToParagraphs section
          else formatTextToParagraphs (description heading))"

definition headingBlock :: "jsstring list \<Rightarrow> Heading \<times> nat \<Rightarrow> jsstring" where
  \<comment> \<open>the body of \<open>headings.forEach((heading, index) => ...)\<close>\<close>
  "headingBlock contentSections hi =
     headingTag (fst hi) @ sectionBody contentSections (fst hi) (snd hi) @ [10, 10]"

definition mainContentHTML :: "jsstring \<Rightarrow> Heading list \<Rightarrow> jsstring" where
  "mainContentHTML mainContent' hs =
     (if mainContent' = [] then []
      else if length hs > 0
      then asc ''<div class='' @ [34] @ asc ''main-content'' @ [34] @ asc ''>'' @ [10]
           @ concat (map (headingBlock (splitContentByHeadings mainContent' hs))
                         (zip hs [0..<length hs]))
           @ asc ''</div>'' @ [10, 10]
      else asc ''<div class='' @ [34] @ asc ''main-content'' @ [34] @ asc ''>'' @ [10]
           @ formatTextToParagraphs mainContent' @ [10] @ asc ''</div>'' @ [10, 10])"

definition formatFullArticleToHTML :: "AISuggestion \<Rightarrow> jsstring" where
  "formatFullArticleToHTML suggestion' =
     (case fullArticle suggestion' of
        None \<Rightarrow> []
      | Some fa \<Rightarrow>
          js_trim
            ((if introduction fa = [] then []
              else asc ''<div class='' @ [34] @ asc ''introduction'' @ [34] @ asc ''>'' @ [10]
                   @ formatTextToParagraphs (introduction fa) @ [10] @ asc ''</div>'' @ [10, 10])
             @ mainContentHTML (mainContent fa) (headings suggestion')
             @ (if conclusion fa = [] then []
                else asc ''<div class='' @ [34] @ asc ''conclusion'' @ [34] @ asc ''>'' @ [10]
                     @ formatTextToParagraphs (conclusion fa) @ [10] @ asc ''</div>'')))"

text \<open>
  The notions the properties of the formatter are stated with, defined on the text itself.  A
  blank-line boundary is a line feed followed by blanks that include another line feed.  A
  paragraph is a non-empty text without blanks at its ends and without a blank-line boundary
  inside; it may contain single line feeds.
\<close>

definition blankLineAt :: "jsstring \<Rightarrow> bool" where
  \<comment> \<open>the text starts with a blank-line boundary\<close>
  "blankLineAt s =
     (case s of [] \<Rightarrow> False | c # r \<Rightarrow> c = 10 \<and> 10 \<in> set (takeWhile isWhiteSpace r))"

fun hasBlankLine :: "jsstring \<Rightarrow> bool" where
  "hasBlankLine [] = False"
| "hasBlankLine (c # cs) = (blankLineAt (c # cs) \<or> hasBlankLine cs)"

definition isParagraph :: "jsstring \<Rightarrow> bool" where
  "isParagraph p = (p \<noteq> [] \<and> js_trim p = p \<and> \<not> hasBlankLine p)"

definition htmlParagraph :: "jsstring \<Rightarrow> jsstring" where
  \<comment> \<open>a paragraph as a \<open>p\<close> element, each of its line feeds as a \<open>br\<close> element\<close>
  "htmlParagraph p =
     asc ''<p>'' @ concat (map (\<lambda>c. if c = 10 then asc ''<br>'' else [c]) p) @ asc ''</p>''"

definition htmlParagraphs :: "jsstring list \<Rightarrow> jsstring" where
  \<comment> \<open>paragraphs as \<open>p\<close> elements, an empty line between two of them\<close>
  "htmlParagraphs ps = join_with [10, 10] (map htmlParagraph ps)"

definition htmlDiv :: "string \<Rightarrow> jsstring \<Rightarrow> jsstring" where
  \<comment> \<open>the opening tag of a \<open>div\<close> of the given class, a line feed, the content\<close>
  "htmlDiv cl inner = asc ''<div class='' @ [34] @ asc cl @ [34] @ asc ''>'' @ [10] @ inner"

definition exampleHeadings :: "Heading list" where
  "exampleHeadings =
     [\<lparr>level = 2, text' = asc ''A'', description = asc ''dA''\<rparr>,
      \<lparr>level = 3, text' = asc ''B'', description = asc ''dB''\<rparr>,
      \<lparr>level = 2, text' = asc ''C'', description = asc ''dC''\<rparr>]"

definition exampleArticle :: FullArticle where
  \<comment> \<open>two paragraphs, the first of two lines, a line of one space between them\<close>
  "exampleArticle =
     \<lparr>introduction = [],
      mainContent = asc ''a'' @ [10] @ asc ''b'' @ [10, 32, 10] @ asc ''c'',
      conclusion = []\<rparr>"

definition exampleSuggestion :: AISuggestion where
  "exampleSuggestion =
     \<lparr>titles = [asc ''T''], categories_existing = [], categories_new = [],
      tags_existing = [], tags_new = [], headings = exampleHeadings, metaDescriptions = [],
      content = None, fullArticle = Some exampleArticle\<rparr>"

section \<open>SEO metrics\<close>

text \<open>
  The functions of the SEO scoring service.  Numbers that stay integers are \<open>nat\<close> or \<open>int\<close>.
  \<open>String.prototype.toLowerCase\<close> follows the Unicode case tables; it is the parameter \<open>lc\<close> of
  the functions that call it.
\<close>

subsection \<open>Doubles\<close>

text \<open>
  A number that is not an integer is a double, modelled by the rational it stands for, with
  \<open>None\<close> for \<open>NaN\<close>.  Every arithmetic operation of the source gives the double nearest to the
  exact result, a tie going to the even significand: that is \<open>fl\<close> of the exact result.  The
  significand has 53 bits; the exponent is not bounded here (the numbers of this program are
  far from overflow and underflow).  \<open>bits n\<close> is the number of binary digits of \<open>n\<close> and
  \<open>ilog2 x\<close> the integer part of the binary logarithm of a positive \<open>x\<close>.
\<close>

fun bits :: "nat \<Rightarrow> nat" where
  "bits 0 = 0"
| "bits (Suc n) = Suc (bits (Suc n div 2))"

definition ilog2 :: "rat \<Rightarrow> int" where
  "ilog2 x = (if 1 \<le> x then int (bits (nat \<lfloor>x\<rfloor>)) - 1 else - int (bits (nat \<lceil>1 / x\<rceil> - 1)))"

definition pow2 :: "int \<Rightarrow> rat" where
  "pow2 e = (if 0 \<le> e then 2 ^ nat e else 1 / 2 ^ nat (- e))"

definition roundHalfEven :: "rat \<Rightarrow> int" where
  "roundHalfEven m =
     (if m - of_int \<lfloor>m\<rfloor> < 1 / 2 then \<lfloor>m\<rfloor>
      else if 1 / 2 < m - of_int \<lfloor>m\<rfloor> then \<lfloor>m\<rfloor> + 1
      else if even \<lfloor>m\<rfloor> then \<lfloor>m\<rfloor> else \<lfloor>m\<rfloor> + 1)"

definition fl :: "rat \<Rightarrow> rat" where
  \<comment> \<open>the double nearest to \<open>x\<close>: the significand \<open>\<bar>x\<bar> / 2^e * 2^52\<close>, with \<open>e = ilog2 \<bar>x\<bar>\<close>, is
      rounded to an integer\<close>
  "fl x =
     (if x = 0 then 0
      else sgn x * (of_int (roundHalfEven (\<bar>x\<bar> / pow2 (ilog2 \<bar>x\<bar>) * 2 ^ 52))
                    * pow2 (ilog2 \<bar>x\<bar>) / 2 ^ 52))"

definition double_0_2 :: rat where
  \<comment> \<open>the double the literal \<open>0.2\<close> stands for\<close>
  "double_0_2 = 3602879701896397 / 18014398509481984"

definition double_0_35 :: rat where
  \<comment> \<open>the double the literal \<open>0.35\<close> stands for\<close>
  "double_0_35 = 3152519739159347 / 9007199254740992"

subsection \<open>Plain text and headings\<close>

definition js_round :: "rat \<Rightarrow> int" where
  \<comment> \<open>\<open>Math.round\<close>: the nearest integer, a half rounded up\<close>
  "js_round x = \<lfloor>x + 1 / 2\<rfloor>"

definition asciiLower :: "jsstring \<Rightarrow> jsstring" where
  \<comment> \<open>\<open>toLowerCase\<close> on text whose only cased letters are ASCII\<close>
  "asciiLower s = map (\<lambda>c. if 65 \<le> c \<and> c \<le> 90 then c + 32 else c) s"

definition tag_re :: "item list" where
  \<comment> \<open>\<open>/<[^>]*>/\<close>\<close>
  "tag_re = [Lit (asc ''<''), Rep (NoneOf (asc ''>'')) 0 None Greedy, Lit (asc ''>'')]"

definition spaces_re :: "item list" where
  \<comment> \<open>\<open>/\s+/\<close>\<close>
  "spaces_re = [Rep Space 1 None Greedy]"

definition extractPlainText :: "jsstring \<Rightarrow> jsstring" where
  "extractPlainText html =
     (if html = [] then []
      else js_trim (re_replace_all spaces_re (asc '' '') (re_replace_all tag_re (asc '' '') html)))"

definition hN_re :: "nat \<Rightarrow> item list" where
  \<comment> \<open>\<open>new RegExp(`<h${i}[^>]*>.*?</h${i}>`, 'gi')\<close>; with the \<open>i\<close> flag the letter matches
      \<open>h\<close> and \<open>H\<close>\<close>
  "hN_re i =
     [Lit (asc ''<''), Rep (OneOf (asc ''hH'')) 1 (Some 1) Greedy, Lit (js_nat_to_string i),
      Rep (NoneOf (asc ''>'')) 0 None Greedy, Lit (asc ''>''), Rep Dot 0 None Lazy,
      Lit (asc ''</''), Rep (OneOf (asc ''hH'')) 1 (Some 1) Greedy, Lit (js_nat_to_string i),
      Lit (asc ''>'')]"

definition countHeadings :: "jsstring \<Rightarrow> HeadingCount" where
  "countHeadings html =
     (if html = [] then \<lparr>h1 = 0, h2 = 0, h3 = 0, h4 = 0, h5 = 0, h6 = 0\<rparr>
      else \<lparr>h1 = length (re_match_all (hN_re 1) html),
            h2 = length (re_match_all (hN_re 2) html),
            h3 = length (re_match_all (hN_re 3) html),
            h4 = length (re_match_all (hN_re 4) html),
            h5 = length (re_match_all (hN_re 5) html),
            h6 = length (re_match_all (hN_re 6) html)\<rparr>)"

subsection \<open>Keyword analysis\<close>

text \<open>
  \<open>wordCounts\<close> is a plain object.  Its own properties are kept as an association list in
  insertion order; a value is \<open>Some n\<close> for the number \<open>n\<close> and \<open>None\<close> for a value that is not a number.
  Reading a key that is not an own property gives what \<open>Object.prototype\<close> has under that name (a
  function or, for \<open>__proto__\<close>, an object) or \<open>undefined\<close>; adding 1 to an inherited value gives
  a string, which is stored and stays a string.  Assigning a string to \<open>__proto__\<close> stores nothing.
\<close>

datatype lookup = Undefined | Inherited | Own "nat option"

type_synonym word_table = "(jsstring \<times> nat option) list"

definition wc_get :: "word_table \<Rightarrow> jsstring \<Rightarrow> lookup" where
  \<comment> \<open>\<open>wordCounts[key]\<close>\<close>
  "wc_get tbl key =
     (case map_of tbl key of
        Some v \<Rightarrow> Own v
      | None \<Rightarrow> if key \<in> set objectPrototypeKeys then Inherited else Undefined)"

fun wc_set :: "word_table \<Rightarrow> jsstring \<Rightarrow> nat option \<Rightarrow> word_table" where
  \<comment> \<open>\<open>wordCounts[key] = v\<close> for a key other than \<open>__proto__\<close>: in place, or appended\<close>
  "wc_set [] key v = [(key, v)]"
| "wc_set ((k, w) # tbl) key v = (if k = key then (k, v) # tbl else (k, w) # wc_set tbl key v)"

definition plus_one :: "lookup \<Rightarrow> nat option" where
  \<comment> \<open>\<open>(x || 0) + 1\<close>\<close>
  "plus_one x =
     (case x of Undefined \<Rightarrow> Some 1 | Inherited \<Rightarrow> None | Own None \<Rightarrow> None
      | Own (Some n) \<Rightarrow> Some (n + 1))"

definition countWord :: "word_table \<Rightarrow> jsstring \<Rightarrow> word_table" where
  \<comment> \<open>the body of \<open>words.forEach\<close>\<close>
  "countWord tbl word =
     (if length word \<ge> 3
      then (if word = asc ''__proto__'' then tbl else wc_set tbl word (plus_one (wc_get tbl word)))
      else tbl)"

definition word_re :: "item list" where
  \<comment> \<open>\<open>/\b\w{2,}\b/\<close>\<close>
  "word_re = [WordB, Rep Word 2 None Greedy, WordB]"

definition or_zero :: "lookup \<Rightarrow> nat option" where
  \<comment> \<open>\<open>x || 0\<close>\<close>
  "or_zero x =
     (case x of Undefined \<Rightarrow> Some 0 | Inherited \<Rightarrow> None | Own None \<Rightarrow> None
      | Own (Some n) \<Rightarrow> Some n)"

definition roundedDensity :: "rat \<Rightarrow> rat" where
  \<comment> \<open>\<open>Math.round(density * 100) / 100\<close>\<close>
  "roundedDensity d = fl (of_int (js_round (fl (d * 100))) / 100)"

definition densityOf :: "nat option \<Rightarrow> nat \<Rightarrow> rat option" where
  \<comment> \<open>\<open>Math.round(density * 100) / 100\<close> with
      \<open>density = totalWords > 0 ? (frequency / totalWords) * 100 : 0\<close>; a frequency that is not
      a number gives \<open>NaN\<close> when it is divided\<close>
  "densityOf freq totalWords =
     (if totalWords > 0
      then (case freq of
              None \<Rightarrow> None
            | Some n \<Rightarrow> Some (roundedDensity (fl (fl (of_nat n / of_nat totalWords) * 100))))
      else Some (roundedDensity 0))"

definition keyNumber :: "jsstring \<Rightarrow> nat" where
  \<comment> \<open>the number a string of digits stands for\<close>
  "keyNumber key = foldl (\<lambda>n c. 10 * n + (c - 48)) 0 key"

definition isArrayIndex :: "jsstring \<Rightarrow> bool" where
  \<comment> \<open>a key that is the decimal form of an integer below \<open>2^32 - 1\<close>: such keys are enumerated
      first, in ascending order\<close>
  "isArrayIndex key =
     (key \<noteq> [] \<and> list_all isDigit key \<and> (key = asc ''0'' \<or> hd key \<noteq> 48)
      \<and> keyNumber key < 4294967295)"

definition objectEntries :: "word_table \<Rightarrow> word_table" where
  \<comment> \<open>\<open>Object.entries(wordCounts)\<close>\<close>
  "objectEntries tbl =
     sort_key (\<lambda>e. keyNumber (fst e)) (filter (\<lambda>e. isArrayIndex (fst e)) tbl)
     @ filter (\<lambda>e. \<not> isArrayIndex (fst e)) tbl"

definition byCount :: "nat option \<Rightarrow> nat option \<Rightarrow> int" where
  \<comment> \<open>the comparator \<open>(a, b) => b - a\<close> on two numbers\<close>
  "byCount a b = (case (a, b) of (Some x, Some y) \<Rightarrow> int y - int x | _ \<Rightarrow> 0)"

fun insertSorted :: "jsstring \<times> nat option \<Rightarrow> word_table \<Rightarrow> word_table" where
  "insertSorted x [] = [x]"
| "insertSorted x (y # ys) =
     (if byCount (snd x) (snd y) \<le> 0 then x # y # ys else y # insertSorted x ys)"

definition sortByCount :: "(word_table \<Rightarrow> word_table) \<Rightarrow> word_table \<Rightarrow> word_table" where
  \<comment> \<open>\<open>entries.sort(([, a], [, b]) => b - a)\<close>.  When every value is a number the sort is
      stable and descending by count.  When a value is not a number the comparator returns
      \<open>NaN\<close> for it, it is not a consistent comparator, and the language leaves the resulting
      order to the implementation: the result is then what the engine's sort, the parameter
      \<open>srt\<close>, gives\<close>
  "sortByCount srt entries =
     (if list_all (\<lambda>e. snd e \<noteq> None) entries then foldr insertSorted entries []
      else srt entries)"

definition analyzeKeywords ::
  "(jsstring \<Rightarrow> jsstring) \<Rightarrow> (word_table \<Rightarrow> word_table) \<Rightarrow> jsstring \<Rightarrow> jsstring list option
     \<Rightarrow> KeywordStat list" where
  "analyzeKeywords lc srt txt targetKeywords =
     (if txt = [] then []
      else
        let wordList = re_match_all word_re (lc txt);
            totalWords = length wordList;
            wordCounts = foldl countWord [] wordList;
            targets = (case targetKeywords of None \<Rightarrow> [] | Some tks \<Rightarrow> tks);
            targetStats =
              map (\<lambda>keyword.
                     \<lparr>term' = keyword,
                      frequency = or_zero (wc_get wordCounts (lc keyword)),
                      density = densityOf (or_zero (wc_get wordCounts (lc keyword))) totalWords\<rparr>)
                  targets;
            topWords =
              filter (\<lambda>e. \<not> list_ex (\<lambda>tk. lc tk = fst e) targets)
                     (take 10 (sortByCount srt (objectEntries wordCounts)));
            topStats =
              map (\<lambda>e. \<lparr>term' = fst e, frequency = snd e,
                         density = densityOf (snd e) totalWords\<rparr>)
                  topWords
        in take 15 (targetStats @ topStats))"

subsection \<open>Scores\<close>

definition clampScore :: "int \<Rightarrow> int" where
  \<comment> \<open>\<open>Math.min(Math.max(score, 0), 100)\<close>\<close>
  "clampScore score = min (max score 0) 100"

definition calculateTitleScore :: "jsstring \<Rightarrow> int" where
  "calculateTitleScore ttl =
     (if ttl = [] then 0
      else clampScore
        ((if length ttl \<ge> 30 \<and> length ttl \<le> 60 then 40
          else if length ttl \<ge> 20 \<and> length ttl \<le> 80 then 25 else 10)
         + (if re_test [Rep Digit 1 None Greedy] ttl then 15 else 0)
         + (if re_test
                 [AltLit [[0x65B9, 0x6CD5], [0x3084, 0x308A, 0x65B9], [0x624B, 0x9806],
                     [0x30B3, 0x30C4], [0x79D8, 0x8A23]]] ttl
            then 10 else 0)
         + (if re_test
                 [AltLit [[0x307E, 0x3068, 0x3081], [0x4E00, 0x89A7], [0x6BD4, 0x8F03],
                     [0x30E9, 0x30F3, 0x30AD, 0x30F3, 0x30B0]]] ttl
            then 10 else 0)
         + (if re_test
                 [AltLit [[0x7121, 0x6599], [0x7C21, 0x5358], [0x52B9, 0x679C, 0x7684],
                     [0x6700, 0x65B0], [0x304A, 0x3059, 0x3059, 0x3081]]] ttl
            then 10 else 0)
         + (if re_test
                 [AltLit [[0xFF1F], [63]]] ttl
            then 10 else 0)
         + (if re_test
                 [AltLit [[0xFF01], [33]]] ttl
            then 5 else 0)
         - (if length ttl > 100 then 20 else 0)
         - (if is_infix (asc ''...'') ttl \<or> is_infix [0x3002, 0x3002, 0x3002] ttl then 10 else 0)))"

definition calculateMetaDescriptionScore :: "jsstring \<Rightarrow> int" where
  "calculateMetaDescriptionScore meta =
     (if meta = [] then 0
      else clampScore
        ((if length meta \<ge> 120 \<and> length meta \<le> 160 then 50
          else if length meta \<ge> 100 \<and> length meta \<le> 180 then 35
          else if length meta \<ge> 80 \<and> length meta \<le> 200 then 20 else 5)
         + (if re_test
                 [AltLit [[0x65B9, 0x6CD5], [0x3084, 0x308A, 0x65B9], [0x89E3, 0x8AAC],
                     [0x7D39, 0x4ECB], [0x30DD, 0x30A4, 0x30F3, 0x30C8]]] meta
            then 15 else 0)
         + (if re_test
                 [AltLit [[0x8A73, 0x3057, 0x304F],
                     [0x308F, 0x304B, 0x308A, 0x3084, 0x3059, 0x304F],
                     [0x7C21, 0x5358, 0x306B], [0x52B9, 0x679C, 0x7684]]] meta
            then 10 else 0)
         + (if re_test
                 [AltLit [[0x7121, 0x6599], [0x304A, 0x3059, 0x3059, 0x3081], [0x6700, 0x65B0],
                     [0x4EBA, 0x6C17]]] meta
            then 10 else 0)
         + (if is_infix [0x3002] meta \<and> length (split_on 0x3002 meta) \<ge> 2 then 10 else 0)))"

definition totalHeadings :: "HeadingCount \<Rightarrow> nat" where
  \<comment> \<open>\<open>Object.values(headingCount).reduce((sum, count) => sum + count, 0)\<close>\<close>
  "totalHeadings hc = h1 hc + h2 hc + h3 hc + h4 hc + h5 hc + h6 hc"

definition wordCountOf :: "jsstring \<Rightarrow> nat" where
  \<comment> \<open>\<open>plainText.split(/\s+/).length\<close>\<close>
  "wordCountOf plainText = length (re_split spaces_re plainText)"

definition calculateContentStructureScore :: "jsstring \<Rightarrow> HeadingCount \<Rightarrow> int" where
  "calculateContentStructureScore html hc =
     (if html = [] then 0
      else
        let wc = wordCountOf (extractPlainText html);
            paragraphs = length (re_split [Lit (asc ''</p>'')] html) - 1
        in clampScore
            ((if wc \<ge> 1000 \<and> wc \<le> 3000 then 30
              else if wc \<ge> 500 \<and> wc \<le> 5000 then 20
              else if wc \<ge> 300 then 10 else 0)
             + (if totalHeadings hc \<ge> 3 \<and> totalHeadings hc \<le> 10 then 25
                else if totalHeadings hc \<ge> 1 \<and> totalHeadings hc \<le> 15 then 15 else 0)
             + (if h1 hc = 1 then 15 else if h1 hc = 0 then 5 else 0)
             + (if h2 hc \<ge> 2 \<and> h2 hc \<le> 8 then 15 else if h2 hc \<ge> 1 then 10 else 0)
             + (if paragraphs \<ge> 3 \<and> paragraphs \<le> 20 then 15
                else if paragraphs \<ge> 1 then 10 else 0)))"

definition densityPoints :: "KeywordStat \<times> nat \<Rightarrow> int" where
  \<comment> \<open>the body of \<open>mainKeywords.forEach((keyword, index) => ...)\<close>; every comparison with
      \<open>NaN\<close> is false\<close>
  "densityPoints ki =
     (let idealDensity = (if snd ki = 0 then 2 else 1 :: rat) in
      case density (fst ki) of
        None \<Rightarrow> 0
      | Some d \<Rightarrow>
          if d \<ge> fl (idealDensity * (1 / 2)) \<and> d \<le> fl (idealDensity * 2) then 15
          else if d \<ge> fl (idealDensity * double_0_2) \<and> d \<le> fl (idealDensity * 3) then 10
          else if d > 0 then 5 else 0)"

definition calculateKeywordOptimizationScore :: "KeywordStat list \<Rightarrow> int" where
  "calculateKeywordOptimizationScore kws =
     (if kws = [] then 0
      else clampScore
        (sum_list (map densityPoints (zip (take 5 kws) [0..<length (take 5 kws)]))
         + (if length kws \<ge> 8 then 20 else if length kws \<ge> 5 then 15
            else if length kws \<ge> 3 then 10 else 0)))"

definition calculateOverallScore :: "int \<Rightarrow> int \<Rightarrow> int \<Rightarrow> int \<Rightarrow> int" where
  \<comment> \<open>the weights are the doubles of \<open>0.25\<close>, \<open>0.2\<close>, \<open>0.35\<close> and \<open>0.2\<close>; each product and each
      sum, taken from the left, is rounded to a double\<close>
  "calculateOverallScore titleScore' metaDescriptionScore' contentStructureScore'
       keywordOptimizationScore' =
     js_round
       (fl (fl (fl (fl (of_int titleScore' * (1 / 4)) + fl (of_int metaDescriptionScore' * double_0_2))
                + fl (of_int contentStructureScore' * double_0_35))
            + fl (of_int keywordOptimizationScore' * double_0_2)))"

record SEOAnalysisInput =
  in_title :: jsstring
  in_content :: jsstring
  in_metaDescription :: jsstring
  in_keywords :: "jsstring list option"

definition rec_title_short :: jsstring where
  \<comment> \<open>the message of line 301\<close>
  "rec_title_short =
     [0x30BF, 0x30A4, 0x30C8, 0x30EB, 0x3092, 0x3082, 0x3046, 0x5C11, 0x3057, 0x8A73, 0x3057,
      0x304F, 0xFF08, 51, 48, 0x6587, 0x5B57, 0x4EE5, 0x4E0A, 0xFF09, 0x3057, 0x3066, 0x304F,
      0x3060, 0x3055, 0x3044]"

definition rec_title_long :: jsstring where
  \<comment> \<open>the message of line 304\<close>
  "rec_title_long =
     [0x30BF, 0x30A4, 0x30C8, 0x30EB, 0x3092, 56, 48, 0x6587, 0x5B57, 0x4EE5, 0x5185, 0x306B,
      0x77ED, 0x7E2E, 0x3057, 0x3066, 0x304F, 0x3060, 0x3055, 0x3044]"

definition rec_title_digit :: jsstring where
  \<comment> \<open>the message of line 307\<close>
  "rec_title_digit =
     [0x30BF, 0x30A4, 0x30C8, 0x30EB, 0x306B, 0x5177, 0x4F53, 0x7684, 0x306A, 0x6570, 0x5B57,
      0x3092, 0x542B, 0x3081, 0x308B, 0x3053, 0x3068, 0x3092, 0x691C, 0x8A0E, 0x3057, 0x3066,
      0x304F, 0x3060, 0x3055, 0x3044]"

definition rec_meta_short :: jsstring where
  \<comment> \<open>the message of line 314\<close>
  "rec_meta_short =
     [0x30E1, 0x30BF, 0x30C7, 0x30A3, 0x30B9, 0x30AF, 0x30EA, 0x30D7, 0x30B7, 0x30E7, 0x30F3,
      0x3092, 0x3088, 0x308A, 0x8A73, 0x3057, 0x304F, 0xFF08, 49, 50, 48, 0x6587, 0x5B57,
      0x4EE5, 0x4E0A, 0xFF09, 0x3057, 0x3066, 0x304F, 0x3060, 0x3055, 0x3044]"

definition rec_meta_long :: jsstring where
  \<comment> \<open>the message of line 317\<close>
  "rec_meta_long =
     [0x30E1, 0x30BF, 0x30C7, 0x30A3, 0x30B9, 0x30AF, 0x30EA, 0x30D7, 0x30B7, 0x30E7, 0x30F3,
      0x3092, 49, 56, 48, 0x6587, 0x5B57, 0x4EE5, 0x5185, 0x306B, 0x77ED, 0x7E2E, 0x3057,
      0x3066, 0x304F, 0x3060, 0x3055, 0x3044]"

definition rec_meta_missing :: jsstring where
  \<comment> \<open>the message of line 320\<close>
  "rec_meta_missing =
     [0x30E1, 0x30BF, 0x30C7, 0x30A3, 0x30B9, 0x30AF, 0x30EA, 0x30D7, 0x30B7, 0x30E7, 0x30F3,
      0x3092, 0x8A2D, 0x5B9A, 0x3057, 0x3066, 0x304F, 0x3060, 0x3055, 0x3044]"

definition rec_more_words :: jsstring where
  \<comment> \<open>the message of line 330\<close>
  "rec_more_words =
     [0x8A18, 0x4E8B, 0x306E, 0x6587, 0x5B57, 0x6570, 0x3092, 0x5897, 0x3084, 0x3057, 0x3066,
      0x304F, 0x3060, 0x3055, 0x3044, 0xFF08, 53, 48, 48, 0x6587, 0x5B57, 0x4EE5, 0x4E0A,
      0x63A8, 0x5968, 0xFF09]"

definition rec_more_headings :: jsstring where
  \<comment> \<open>the message of line 337\<close>
  "rec_more_headings =
     [0x898B, 0x51FA, 0x3057, 0xFF08, 72, 50, 0x3001, 72, 51, 0x30BF, 0x30B0, 0xFF09, 0x3092,
      0x8FFD, 0x52A0, 0x3057, 0x3066, 0x8A18, 0x4E8B, 0x3092, 0x69CB, 0x9020, 0x5316, 0x3057,
      0x3066, 0x304F, 0x3060, 0x3055, 0x3044]"

definition rec_h1 :: jsstring where
  \<comment> \<open>the message of line 340\<close>
  "rec_h1 =
     [0x30E1, 0x30A4, 0x30F3, 0x30BF, 0x30A4, 0x30C8, 0x30EB, 0xFF08, 72, 49, 0x30BF, 0x30B0,
      0xFF09, 0x3092, 0x8A2D, 0x5B9A, 0x3057, 0x3066, 0x304F, 0x3060, 0x3055, 0x3044]"

definition rec_keyword_frequency :: jsstring where
  \<comment> \<open>the message of line 346\<close>
  "rec_keyword_frequency =
     [0x91CD, 0x8981, 0x306A, 0x30AD, 0x30FC, 0x30EF, 0x30FC, 0x30C9, 0x3092, 0x9069, 0x5207,
      0x306A, 0x983B, 0x5EA6, 0x3067, 0x4F7F, 0x7528, 0x3057, 0x3066, 0x304F, 0x3060, 0x3055,
      0x3044]"

definition rec_keyword_variety :: jsstring where
  \<comment> \<open>the message of line 347\<close>
  "rec_keyword_variety =
     [0x95A2, 0x9023, 0x30AD, 0x30FC, 0x30EF, 0x30FC, 0x30C9, 0x3092, 0x8A18, 0x4E8B, 0x306B,
      0x542B, 0x3081, 0x3066, 0x30AD, 0x30FC, 0x30EF, 0x30FC, 0x30C9, 0x306E, 0x591A, 0x69D8,
      0x6027, 0x3092, 0x9AD8, 0x3081, 0x3066, 0x304F, 0x3060, 0x3055, 0x3044]"

definition generateRecommendations ::
  "SEOAnalysisInput \<Rightarrow> int \<Rightarrow> int \<Rightarrow> int \<Rightarrow> int \<Rightarrow> jsstring list" where
  "generateRecommendations input titleScore' metaDescriptionScore' contentStructureScore'
       keywordOptimizationScore' =
     (if titleScore' < 50
      then (if length (in_title input) < 30 then [rec_title_short] else [])
           @ (if length (in_title input) > 80 then [rec_title_long] else [])
           @ (if re_test [Rep Digit 1 None Greedy] (in_title input) then [] else [rec_title_digit])
      else [])
     @ (if metaDescriptionScore' < 50
        then (if length (in_metaDescription input) < 120 then [rec_meta_short] else [])
             @ (if length (in_metaDescription input) > 180 then [rec_meta_long] else [])
             @ (if in_metaDescription input = [] then [rec_meta_missing] else [])
        else [])
     @ (if contentStructureScore' < 50
        then (if wordCountOf (extractPlainText (in_content input)) < 500 then [rec_more_words] else [])
             @ (if totalHeadings (countHeadings (in_content input)) < 3 then [rec_more_headings] else [])
             @ (if h1 (countHeadings (in_content input)) = 0 then [rec_h1] else [])
        else [])
     @ (if keywordOptimizationScore' < 50 then [rec_keyword_frequency, rec_keyword_variety] else [])"

text \<open>
  \<open>analyzeSEO\<close>.  The id (made from \<open>Date.now()\<close> and \<open>Math.random()\<close>) and the time of
  \<open>new Date()\<close> are the arguments \<open>newId\<close> and \<open>now\<close>.
\<close>

definition analyzeSEO ::
  "(jsstring \<Rightarrow> jsstring) \<Rightarrow> (word_table \<Rightarrow> word_table) \<Rightarrow> jsstring \<Rightarrow> int \<Rightarrow> jsstring
     \<Rightarrow> SEOAnalysisInput \<Rightarrow> SEOMetrics" where
  "analyzeSEO lc srt newId now articleId' input =
     (let plainText = extractPlainText (in_content input);
          hc = countHeadings (in_content input);
          kws = analyzeKeywords lc srt plainText (in_keywords input);
          ts = calculateTitleScore (in_title input);
          ms = calculateMetaDescriptionScore (in_metaDescription input);
          cs = calculateContentStructureScore (in_content input) hc;
          ks = calculateKeywordOptimizationScore kws
      in \<lparr>seo_id = newId,
          seo_articleId = articleId',
          titleLength = length (in_title input),
          metaDescriptionLength = length (in_metaDescription input),
          wordCount = wordCountOf plainText,
          headingCount = hc,
          keywords' = kws,
          overallScore = calculateOverallScore ts ms cs ks,
          titleScore = ts,
          metaDescriptionScore = ms,
          contentStructureScore = cs,
          keywordOptimizationScore = ks,
          recommendations = generateRecommendations input ts ms cs ks,
          calculatedAt = now\<rparr>)"

section \<open>Prompt history\<close>

text \<open>
  The store is the array kept in \<open>localStorage\<close> under \<open>STORAGE_KEY\<close> together with the two
  module variables of the duplicate cache.  \<open>getPromptHistory\<close> and \<open>savePromptHistory\<close> read and
  write the array; storage is taken to hold what was last saved.  \<open>Date.now()\<close> is the argument
  \<open>now\<close>; the fresh id and the time of \<open>new Date()\<close> are the arguments \<open>newId\<close> and \<open>genAt\<close>.
\<close>

record HistoryStore =
  storage :: "PromptHistory list"
  lastPromptHistoryId :: "jsstring option"
  lastPromptTimestamp :: int

definition emptyHistoryStore :: HistoryStore where
  "emptyHistoryStore = \<lparr>storage = [], lastPromptHistoryId = None, lastPromptTimestamp = 0\<rparr>"

definition truthy_string :: "jsstring option \<Rightarrow> bool" where
  \<comment> \<open>\<open>null\<close> and the empty string are falsy\<close>
  "truthy_string v = (case v of None \<Rightarrow> False | Some s \<Rightarrow> s \<noteq> [])"

definition newPromptHistory :: "PromptData \<Rightarrow> jsstring \<Rightarrow> int \<Rightarrow> PromptHistory" where
  "newPromptHistory data newId genAt =
     \<lparr>originalPrompt = originalPrompt data,
      userInput = userInput data,
      fileInfo = fileInfo data,
      modelUsed = modelUsed data,
      temperature = temperature data,
      maxTokens = maxTokens data,
      suggestion = suggestion data,
      processingTime = processingTime data,
      tokensUsed = tokensUsed data,
      estimatedCost = estimatedCost data,
      siteId = siteId data,
      userId = userId data,
      id' = newId,
      generatedAt = genAt,
      resultingArticles = [],
      seoMetrics = None,
      userRating = None,
      userNotes = None\<rparr>"

definition recentDuplicateOf :: "PromptData \<Rightarrow> int \<Rightarrow> PromptHistory \<Rightarrow> bool" where
  "recentDuplicateOf data now item =
     (originalPrompt item = originalPrompt data \<and>
      siteId item = siteId data \<and>
      modelUsed item = modelUsed data \<and>
      now - generatedAt item < 30000)"

definition addPromptHistory ::
  "HistoryStore \<Rightarrow> int \<Rightarrow> jsstring \<Rightarrow> int \<Rightarrow> PromptData \<Rightarrow> PromptHistory \<times> HistoryStore" where
  "addPromptHistory st now newId genAt data =
     (let isDuplicate = (lastPromptTimestamp st > 0 \<and> now - lastPromptTimestamp st < 5000);
          cached = (if isDuplicate \<and> truthy_string (lastPromptHistoryId st)
                    then find (\<lambda>item. Some (id' item) = lastPromptHistoryId st) (storage st)
                    else None)
      in case cached of
           Some existing \<Rightarrow> (existing, st)
         | None \<Rightarrow>
             (case find (recentDuplicateOf data now) (storage st) of
                Some recentDuplicate \<Rightarrow>
                  (recentDuplicate,
                   st\<lparr>lastPromptHistoryId := Some (id' recentDuplicate), lastPromptTimestamp := now\<rparr>)
              | None \<Rightarrow>
                  (let newHistory = newPromptHistory data newId genAt
                   in (newHistory,
                       \<lparr>storage = newHistory # storage st,
                        lastPromptHistoryId = Some (id' newHistory),
                        lastPromptTimestamp = now\<rparr>))))"

fun findIndex :: "('a \<Rightarrow> bool) \<Rightarrow> 'a list \<Rightarrow> nat option" where
  \<comment> \<open>\<open>xs.findIndex(p)\<close>; \<open>None\<close> is \<open>-1\<close>\<close>
  "findIndex p [] = None"
| "findIndex p (x # xs) = (if p x then Some 0 else map_option Suc (findIndex p xs))"

definition addResultingArticle :: "HistoryStore \<Rightarrow> jsstring \<Rightarrow> ResultingArticle \<Rightarrow> bool \<times> HistoryStore" where
  "addResultingArticle st promptId article =
     (case findIndex (\<lambda>item. id' item = promptId) (storage st) of
        None \<Rightarrow> (False, st)
      | Some index \<Rightarrow>
          (let item = storage st ! index;
               exists = list_ex (\<lambda>existing. articleId existing = articleId article)
                          (resultingArticles item)
           in if exists then (True, st)
              else (True, st\<lparr>storage := (storage st)
                       [index := item\<lparr>resultingArticles := resultingArticles item @ [article]\<rparr>]\<rparr>)))"

fun addResultingArticles :: "HistoryStore \<Rightarrow> (jsstring \<times> ResultingArticle) list \<Rightarrow> HistoryStore" where
  \<comment> \<open>a sequence of \<open>addResultingArticle\<close> calls\<close>
  "addResultingArticles st [] = st"
| "addResultingArticles st ((promptId, article) # calls) =
     addResultingArticles (snd (addResultingArticle st promptId article)) calls"

definition articleIdsDistinct :: "HistoryStore \<Rightarrow> bool" where
  \<comment> \<open>no record lists an article id twice\<close>
  "articleIdsDistinct st =
     list_all (\<lambda>item. distinct (map articleId (resultingArticles item))) (storage st)"

definition examplePrompt :: "jsstring \<Rightarrow> PromptData" where
  \<comment> \<open>a request with the given prompt, for the concrete runs below\<close>
  "examplePrompt p =
     \<lparr>originalPrompt = p,
      userInput = asc ''input'',
      fileInfo = None,
      modelUsed = asc ''gemini-2.5-pro'',
      temperature = None,
      maxTokens = None,
      suggestion = \<lparr>titles = [], categories_existing = [], categories_new = [],
                     tags_existing = [], tags_new = [], headings = [], metaDescriptions = [],
                     content = None, fullArticle = None\<rparr>,
      processingTime = None,
      tokensUsed = 100,
      estimatedCost = 0,
      siteId = asc ''site1'',
      userId = None\<rparr>"

section \<open>Properties of the matcher\<close>

lemma first_some_SomeD: "first_some f xs = Some y \<Longrightarrow> \<exists>x \<in> set xs. f x = Some y"
  by (induction xs) (auto split: option.splits)


lemma set_counts: "set (counts q lo n) = {lo..n}"
  by (cases q) (auto simp: counts_def)

lemma avail_le_length: "avail c hi xs \<le> length xs"
  by (induction xs arbitrary: hi) auto

lemma avail_le_bound: "avail c (Some h) xs \<le> h"
proof (induction xs arbitrary: h)
  case Nil
  then show ?case by simp
next
  case (Cons x xs)
  show ?case
  proof (cases h)
    case 0
    then show ?thesis by simp
  next
    case (Suc h')
    with Cons [of h'] show ?thesis by simp
  qed
qed

lemma avail_all: "k \<le> avail c hi xs \<Longrightarrow> list_all (cls_ok c) (take k xs)"
proof (induction xs arbitrary: hi k)
  case Nil
  then show ?case by simp
next
  case (Cons x xs)
  show ?case
  proof (cases k)
    case 0
    then show ?thesis by simp
  next
    case (Suc k')
    with Cons.prems have ok: "cls_ok c x" and k': "k' \<le> avail c (map_option (\<lambda>h. h - 1) hi) xs"
      by (auto split: if_splits)
    from Cons.IH [OF k'] ok Suc show ?thesis by simp
  qed
qed

lemma avail_unbounded: "avail c None xs = length (takeWhile (cls_ok c) xs)"
  by (induction xs) auto

lemma rmatch_marks_length:
  "rmatch re prev rest p ms = Some (e, ms') \<Longrightarrow> length ms' = length ms + count_marks re"
proof (induction re arbitrary: prev rest p ms)
  case Nil
  then show ?case by simp
next
  case (Cons it r)
  show ?case
  proof (cases it)
    case (Rep c lo hi q)
    with Cons.prems obtain k where "rmatch r (prev_after prev rest k) (drop k rest) (p + k) ms = Some (e, ms')"
      by (auto simp: Let_def split: if_splits dest!: first_some_SomeD)
    from Cons.IH [OF this] Rep show ?thesis by simp
  next
    case (Lit l)
    with Cons.prems have "rmatch r (prev_after prev rest (length l)) (drop (length l) rest) (p + length l) ms = Some (e, ms')"
      by (auto split: if_splits)
    from Cons.IH [OF this] Lit show ?thesis by simp
  next
    case (AltLit ls)
    with Cons.prems have "\<exists>k. rmatch r (prev_after prev rest k) (drop k rest) (p + k) ms = Some (e, ms')"
      by (auto split: if_splits dest!: first_some_SomeD)
    then obtain k where "rmatch r (prev_after prev rest k) (drop k rest) (p + k) ms = Some (e, ms')" ..
    from Cons.IH [OF this] AltLit show ?thesis by simp
  next
    case Mark
    with Cons.prems have "rmatch r prev rest p (ms @ [p]) = Some (e, ms')" by simp
    from Cons.IH [OF this] Mark show ?thesis by simp
  next
    case (Bol ml)
    with Cons.prems have "rmatch r prev rest p ms = Some (e, ms')" by (auto split: if_splits)
    from Cons.IH [OF this] Bol show ?thesis by simp
  next
    case (Eol ml)
    with Cons.prems have "rmatch r prev rest p ms = Some (e, ms')" by (auto split: if_splits)
    from Cons.IH [OF this] Eol show ?thesis by simp
  next
    case WordB
    with Cons.prems have "rmatch r prev rest p ms = Some (e, ms')" by (auto split: if_splits)
    from Cons.IH [OF this] WordB show ?thesis by simp
  next
    case NlOrEol
    with Cons.prems obtain prev' rest' p' where "rmatch r prev' rest' p' ms = Some (e, ms')"
      by (auto split: if_splits list.splits option.splits)
    from Cons.IH [OF this] NlOrEol show ?thesis by simp
  qed
qed

lemma rsearch_marks_length:
  "rsearch re prev rest p = Some (st, en, ms) \<Longrightarrow> length ms = count_marks re"
proof (induction rest arbitrary: prev p)
  case Nil
  then show ?case by (auto split: option.splits dest: rmatch_marks_length)
next
  case (Cons c rest)
  then show ?case by (auto split: option.splits dest: rmatch_marks_length)
qed

lemma group_of_defined:
  "re_exec re s = Some m \<Longrightarrow> 1 \<le> k \<Longrightarrow> k * 2 \<le> count_marks re \<Longrightarrow> \<exists>g. group_of s m k = Inr g"
  by (cases m) (auto simp: re_exec_def group_of_def capture_def dest: rsearch_marks_length)

lemma rmatch_marks:
  "rmatch re prev rest p ms = Some (e, ms') \<Longrightarrow> take (length ms) ms' = ms"
proof (induction re arbitrary: prev rest p ms)
  case Nil
  then show ?case by simp
next
  case (Cons it r)
  show ?case
  proof (cases it)
    case (Rep c lo hi q)
    with Cons.prems obtain k where "rmatch r (prev_after prev rest k) (drop k rest) (p + k) ms = Some (e, ms')"
      by (auto simp: Let_def split: if_splits dest!: first_some_SomeD)
    from Cons.IH [OF this] show ?thesis .
  next
    case (Lit l)
    with Cons.prems have "rmatch r (prev_after prev rest (length l)) (drop (length l) rest) (p + length l) ms = Some (e, ms')"
      by (auto split: if_splits)
    from Cons.IH [OF this] show ?thesis .
  next
    case (AltLit ls)
    with Cons.prems have "\<exists>k. rmatch r (prev_after prev rest k) (drop k rest) (p + k) ms = Some (e, ms')"
      by (auto split: if_splits dest!: first_some_SomeD)
    then obtain k where "rmatch r (prev_after prev rest k) (drop k rest) (p + k) ms = Some (e, ms')" ..
    from Cons.IH [OF this] show ?thesis .
  next
    case Mark
    with Cons.prems have "rmatch r prev rest p (ms @ [p]) = Some (e, ms')" by simp
    from Cons.IH [OF this] have "take (Suc (length ms)) ms' = ms @ [p]" by simp
    then have "take (length ms) (take (Suc (length ms)) ms') = take (length ms) (ms @ [p])" by simp
    then show ?thesis by (simp add: min_def)
  next
    case (Bol ml)
    with Cons.prems have "rmatch r prev rest p ms = Some (e, ms')" by (auto split: if_splits)
    from Cons.IH [OF this] show ?thesis .
  next
    case (Eol ml)
    with Cons.prems have "rmatch r prev rest p ms = Some (e, ms')" by (auto split: if_splits)
    from Cons.IH [OF this] show ?thesis .
  next
    case WordB
    with Cons.prems have "rmatch r prev rest p ms = Some (e, ms')" by (auto split: if_splits)
    from Cons.IH [OF this] show ?thesis .
  next
    case NlOrEol
    with Cons.prems obtain prev' rest' p' where "rmatch r prev' rest' p' ms = Some (e, ms')"
      by (auto split: if_splits list.splits option.splits)
    from Cons.IH [OF this] show ?thesis .
  qed
qed

lemma prev_after_Cons: "prev_after prev (c # rest) (Suc j) = prev_after (Some c) rest j"
  by (cases j) (simp_all add: prev_after_def)

lemma rsearch_SomeD:
  "rsearch re prev rest p = Some (st, en, ms) \<Longrightarrow>
     \<exists>j \<le> length rest. st = p + j
       \<and> rmatch re (prev_after prev rest j) (drop j rest) st [] = Some (en, ms)"
proof (induction rest arbitrary: prev p)
  case Nil
  then show ?case by (auto simp: prev_after_def split: option.splits)
next
  case (Cons c rest)
  show ?case
  proof (cases "rmatch re prev (c # rest) p []")
    case (Some r)
    with Cons.prems have "rmatch re prev (c # rest) p [] = Some (en, ms)" and "st = p"
      by (auto split: prod.splits)
    then show ?thesis by (intro exI [of _ 0]) (simp add: prev_after_def)
  next
    case None
    with Cons.prems have "rsearch re (Some c) rest (Suc p) = Some (st, en, ms)" by simp
    from Cons.IH [OF this] obtain j where j: "j \<le> length rest" "st = Suc p + j"
      "rmatch re (prev_after (Some c) rest j) (drop j rest) st [] = Some (en, ms)" by blast
    then show ?thesis
      by (intro exI [of _ "Suc j"]) (simp add: prev_after_Cons)
  qed
qed

lemma rsearch_NoneD:
  "rsearch re prev rest p = None \<Longrightarrow> j \<le> length rest \<Longrightarrow>
     rmatch re (prev_after prev rest j) (drop j rest) (p + j) [] = None"
proof (induction rest arbitrary: prev p j)
  case Nil
  then show ?case by (auto simp: prev_after_def split: option.splits)
next
  case (Cons c rest)
  from Cons.prems(1) have here: "rmatch re prev (c # rest) p [] = None"
    and later: "rsearch re (Some c) rest (Suc p) = None"
    by (auto split: option.splits)
  show ?case
  proof (cases j)
    case 0
    with here show ?thesis by (simp add: prev_after_def)
  next
    case (Suc j')
    with Cons.prems(2) have "j' \<le> length rest" by simp
    from Cons.IH [OF later this] Suc show ?thesis by (simp add: prev_after_Cons)
  qed
qed

section \<open>Properties of the rate limiter\<close>

lemma asc_gemini_pro_not_prototype_key: "asc ''gemini-2.5-pro'' \<notin> set objectPrototypeKeys"
  by (simp add: objectPrototypeKeys_def asc_def)

text \<open>
  Claim C1 (admission is decided by the request count and by the token samples of the trailing
  60 seconds).  The code filters the token list with the predicate written for time stamps:
  a token count \<open>v\<close> is kept only when \<open>now - v < 60000\<close>.  Here \<open>gemini-2.5-pro\<close> records a
  request of 31500 tokens and asks one second later for 1000 more: the sample is dropped, the
  sum read is 0 and the request is admitted, although \<open>31500 + 1000\<close> is not below the budget of
  32000 tokens per minute.
\<close>

theorem canMakeRequest_drops_recent_token_sample:
  "recordRequest newRateLimiter 1700000000000 (asc ''gemini-2.5-pro'') 31500 =
     Inr \<lparr>requests = (\<lambda>_. None)(asc ''gemini-2.5-pro'' \<mapsto> [1700000000000]),
          tokens = (\<lambda>_. None)(asc ''gemini-2.5-pro'' \<mapsto> [31500])\<rparr>
   \<and> canMakeRequest
        \<lparr>requests = (\<lambda>_. None)(asc ''gemini-2.5-pro'' \<mapsto> [1700000000000]),
         tokens = (\<lambda>_. None)(asc ''gemini-2.5-pro'' \<mapsto> [31500])\<rparr>
        1700000001000 (asc ''gemini-2.5-pro'') 1000 =
     Inr (True,
          \<lparr>requests = (\<lambda>_. None)(asc ''gemini-2.5-pro'' \<mapsto> [1700000000000]),
           tokens = (\<lambda>_. None)(asc ''gemini-2.5-pro'' \<mapsto> [])\<rparr>)
   \<and> RATE_LIMITS (asc ''gemini-2.5-pro'') = Some \<lparr>rpm = 2, tpm = 32000\<rparr>
   \<and> \<not> (31500 + 1000 < (32000 :: int))"
  using asc_gemini_pro_not_prototype_key
  by (simp add: recordRequest_def canMakeRequest_def newRateLimiter_def orEmpty_def
      RATE_LIMITS_def oneMinute_def)

text \<open>
  Claim C2 as stated fails for \<open>recordRequest\<close>, which only appends: a request recorded at time
  0 is still in the window state after a second \<open>recordRequest\<close> at time 100000, more than 60
  seconds later.
\<close>

theorem recordRequest_keeps_stale_sample:
  "recordRequest
     \<lparr>requests = (\<lambda>_. None)(asc ''gemini-2.5-pro'' \<mapsto> [0]),
      tokens = (\<lambda>_. None)(asc ''gemini-2.5-pro'' \<mapsto> [10])\<rparr>
     100000 (asc ''gemini-2.5-pro'') 10 =
   Inr \<lparr>requests = (\<lambda>_. None)(asc ''gemini-2.5-pro'' \<mapsto> [0, 100000]),
        tokens = (\<lambda>_. None)(asc ''gemini-2.5-pro'' \<mapsto> [10, 10])\<rparr>
   \<and> (100000 :: int) - 0 > oneMinute"
  using asc_gemini_pro_not_prototype_key
  by (simp add: recordRequest_def orEmpty_def oneMinute_def)

text \<open>
  Claim C2, amended: when \<open>canMakeRequest\<close> returns, every request time stamp left for that
  model is less than 60 seconds old and was there before; \<open>recordRequest\<close> appends the time
  stamp and the token count and removes nothing.
\<close>

theorem canMakeRequest_prunes_recordRequest_appends:
  "(canMakeRequest rl now model est = Inr (ok, rl') \<longrightarrow>
      (\<exists>reqs. requests rl' model = Some reqs
         \<and> (\<forall>t \<in> set reqs. now - t < oneMinute)
         \<and> reqs = filter (\<lambda>t. now - t < oneMinute) (orEmpty (requests rl model))))
   \<and> (recordRequest rl now model toks = Inr rl'' \<longrightarrow>
         requests rl'' model = Some (orEmpty (requests rl model) @ [now])
       \<and> tokens rl'' model = Some (orEmpty (tokens rl model) @ [toks]))"
  by (auto simp: canMakeRequest_def recordRequest_def Let_def split: if_splits option.splits)

theorem canMakeRequest_prunes_recordRequest_appends_witness:
  "canMakeRequest
     \<lparr>requests = (\<lambda>_. None)(asc ''gemini-2.5-pro'' \<mapsto> [0, 50000]),
      tokens = (\<lambda>_. None)\<rparr> 70000 (asc ''gemini-2.5-pro'') 1000 =
   Inr (True, \<lparr>requests = (\<lambda>_. None)(asc ''gemini-2.5-pro'' \<mapsto> [50000]),
               tokens = (\<lambda>_. None)(asc ''gemini-2.5-pro'' \<mapsto> [])\<rparr>)
   \<and> (70000 :: int) - 50000 < oneMinute
   \<and> recordRequest newRateLimiter 5 (asc ''gemini-2.5-pro'') 7 =
       Inr \<lparr>requests = (\<lambda>_. None)(asc ''gemini-2.5-pro'' \<mapsto> [5]),
            tokens = (\<lambda>_. None)(asc ''gemini-2.5-pro'' \<mapsto> [7])\<rparr>"
proof -
  let ?m = "asc ''gemini-2.5-pro''"
  let ?rl = "\<lparr>requests = (\<lambda>_. None)(?m \<mapsto> [0, 50000 :: int]), tokens = (\<lambda>_. None)\<rparr>"
  let ?rl' = "\<lparr>requests = (\<lambda>_. None)(?m \<mapsto> [50000 :: int]), tokens = (\<lambda>_. None)(?m \<mapsto> [])\<rparr>"
  let ?rl'' = "\<lparr>requests = (\<lambda>_. None)(?m \<mapsto> [5 :: int]), tokens = (\<lambda>_. None)(?m \<mapsto> [7 :: int])\<rparr>"
  have a: "canMakeRequest ?rl 70000 ?m 1000 = Inr (True, ?rl')"
    using asc_gemini_pro_not_prototype_key
    by (simp add: canMakeRequest_def orEmpty_def RATE_LIMITS_def oneMinute_def)
  have b: "recordRequest newRateLimiter 5 ?m 7 = Inr ?rl''"
    using asc_gemini_pro_not_prototype_key
    by (simp add: recordRequest_def newRateLimiter_def orEmpty_def)
  from canMakeRequest_prunes_recordRequest_appends
    [where rl = ?rl and now = 70000 and model = ?m and est = 1000 and ok = True and rl' = ?rl']
  have "(70000 :: int) - 50000 < oneMinute"
    using a by simp
  with a b show ?thesis by simp
qed

section \<open>Properties of the parser\<close>

lemmas re_ev = isLineTerminator_def isWhiteSpace_def isWordChar_def isDigit_def prev_after_def
  at_bol_def at_eol_def at_wordb_def counts_def Let_def re_exec_def group_of_def capture_def
  slice_def js_trim_def bind_err_def asc_def matched_def re_match_all_def re_replace_all_def

lemma count_marks_res [simp]:
  "count_marks title_re = 2" "count_marks (labeled_re l) = 2" "count_marks content_re = 2"
  "count_marks (heading_re ml) = 4"
  by (simp_all add: title_re_def labeled_re_def content_re_def heading_re_def)

lemma extractTitle_total: "\<exists>t. extractTitle text = Inr t"
proof (cases "re_exec title_re text")
  case None
  then show ?thesis by (simp add: extractTitle_def)
next
  case (Some m)
  from group_of_defined [OF Some, of 1] obtain g where "group_of text m 1 = Inr g" by auto
  with Some show ?thesis by (simp add: extractTitle_def bind_err_def)
qed

lemma extractMetaDescription_total: "\<exists>t. extractMetaDescription text = Inr t"
proof (cases "re_exec (labeled_re meta_label) text")
  case None
  then show ?thesis by (simp add: extractMetaDescription_def)
next
  case (Some m)
  from group_of_defined [OF Some, of 1] obtain g where "group_of text m 1 = Inr g" by auto
  with Some show ?thesis by (simp add: extractMetaDescription_def bind_err_def)
qed

lemma extractNames_total: "\<exists>ns. extractNames label text = Inr ns"
proof (cases "re_exec (labeled_re label) text")
  case None
  then show ?thesis by (simp add: extractNames_def)
next
  case (Some m)
  from group_of_defined [OF Some, of 1] obtain g where "group_of text m 1 = Inr g" by auto
  with Some show ?thesis by (simp add: extractNames_def bind_err_def)
qed

lemma extractFullContent_total: "\<exists>b. extractFullContent text = Inr b"
proof (cases "re_exec content_re text")
  case None
  then show ?thesis by (simp add: extractFullContent_def)
next
  case (Some m)
  from group_of_defined [OF Some, of 1] obtain g where "group_of text m 1 = Inr g" by auto
  with Some show ?thesis by (simp add: extractFullContent_def bind_err_def)
qed

lemma conclusionOf_total: "\<exists>c. conclusionOf sections = Inr c"
  by (auto simp: conclusionOf_def nth_opt_def)

lemma counted_group_marks:
  assumes "rmatch (Bol ml # Mark # Rep c lo (Some hi) Greedy # Mark # r) prev rest p [] = Some (e, ms)"
  shows "\<exists>k. lo \<le> k \<and> k \<le> hi \<and> k \<le> length rest \<and> take 2 ms = [p, p + k]"
proof -
  let ?n = "avail c (Some hi) rest"
  from assms obtain k where k: "k \<in> set (counts Greedy lo ?n)"
    and m: "rmatch r (prev_after prev rest k) (drop k rest) (p + k) [p, p + k] = Some (e, ms)"
    by (auto simp: Let_def split: if_splits dest!: first_some_SomeD)
  from rmatch_marks [OF m] have t: "take 2 ms = [p, p + k]" by (simp add: numeral_2_eq_2)
  from k have "lo \<le> k" "k \<le> ?n" by (simp_all add: set_counts)
  moreover have "?n \<le> hi" by (rule avail_le_bound)
  moreover have "?n \<le> length rest" by (rule avail_le_length)
  ultimately show ?thesis using t by (intro exI [of _ k]) simp
qed

lemma heading_re_marks:
  assumes "rmatch (heading_re ml) prev rest p [] = Some (e, ms)"
  shows "\<exists>k. 2 \<le> k \<and> k \<le> 6 \<and> k \<le> length rest \<and> take 2 ms = [p, p + k]"
  using assms unfolding heading_re_def by (rule counted_group_marks)

lemma headingOf_valid: "\<exists>hs. headingOf m = Inr hs \<and> list_all validHeading hs"
proof (cases "re_exec (heading_re False) m")
  case None
  then show ?thesis by (simp add: headingOf_def)
next
  case (Some r)
  obtain st en ms where r: "r = (st, en, ms)" by (cases r)
  from Some r have s: "rsearch (heading_re False) None m 0 = Some (st, en, ms)"
    by (simp add: re_exec_def)
  from rsearch_SomeD [OF s] obtain j where j: "j \<le> length m" "st = j"
    and rm: "rmatch (heading_re False) (prev_after None m j) (drop j m) st [] = Some (en, ms)"
    by auto
  from heading_re_marks [OF rm] obtain k where k: "2 \<le> k" "k \<le> 6" "k \<le> length (drop j m)"
    and t: "take 2 ms = [st, st + k]" by blast
  from rsearch_marks_length [OF s] have len: "length ms = 4" by simp
  from t len have m0: "ms ! 0 = st" and m1: "ms ! 1 = st + k"
    by (metis nth_take nth_Cons_0 zero_less_numeral,
        metis nth_take nth_Cons_0 nth_Cons_Suc One_nat_def one_less_numeral_iff semiring_norm(76))
  have g1: "group_of m r 1 = Inr (slice m st (st + k))"
    using r len m0 m1 by (simp add: group_of_def capture_def)
  from group_of_defined [OF Some, of 2] obtain g2 where g2: "group_of m r 2 = Inr g2" by auto
  have "length (slice m st (st + k)) = k"
    using k j by (simp add: slice_def)
  with Some g1 g2 k show ?thesis
    by (simp add: headingOf_def bind_err_def validHeading_def)
qed

lemma collect_err_all:
  assumes "\<And>x. \<exists>ys. f x = Inr ys \<and> list_all P ys"
  shows "\<exists>zs. collect_err f xs = Inr zs \<and> list_all P zs"
proof (induction xs)
  case Nil
  then show ?case by simp
next
  case (Cons x xs)
  from assms [of x] obtain ys where "f x = Inr ys" "list_all P ys" by blast
  moreover from Cons obtain zs where "collect_err f xs = Inr zs" "list_all P zs" by blast
  ultimately show ?case by (simp add: bind_err_def)
qed

lemma extractHeadings_valid: "\<exists>hs. extractHeadings body = Inr hs \<and> list_all validHeading hs"
  unfolding extractHeadings_def by (rule collect_err_all) (rule headingOf_valid)

lemma avail_ge: "list_all (cls_ok c) ws \<Longrightarrow> length ws \<le> avail c None (ws @ xs)"
  by (induction ws) auto

lemma rmatch_end_ge:
  "rmatch re prev rest p ms = Some (e, ms') \<Longrightarrow> p \<le> e"
proof (induction re arbitrary: prev rest p ms)
  case Nil
  then show ?case by simp
next
  case (Cons it r)
  show ?case
  proof (cases it)
    case (Rep c lo hi q)
    with Cons.prems obtain k where "rmatch r (prev_after prev rest k) (drop k rest) (p + k) ms = Some (e, ms')"
      by (auto simp: Let_def split: if_splits dest!: first_some_SomeD)
    from Cons.IH [OF this] show ?thesis by simp
  next
    case (Lit l)
    with Cons.prems have "rmatch r (prev_after prev rest (length l)) (drop (length l) rest) (p + length l) ms = Some (e, ms')"
      by (auto split: if_splits)
    from Cons.IH [OF this] show ?thesis by simp
  next
    case (AltLit ls)
    with Cons.prems have "\<exists>k. rmatch r (prev_after prev rest k) (drop k rest) (p + k) ms = Some (e, ms')"
      by (auto split: if_splits dest!: first_some_SomeD)
    then obtain k where "rmatch r (prev_after prev rest k) (drop k rest) (p + k) ms = Some (e, ms')" ..
    from Cons.IH [OF this] show ?thesis by simp
  next
    case Mark
    with Cons.prems have "rmatch r prev rest p (ms @ [p]) = Some (e, ms')" by simp
    from Cons.IH [OF this] show ?thesis .
  next
    case (Bol ml)
    with Cons.prems have "rmatch r prev rest p ms = Some (e, ms')" by (auto split: if_splits)
    from Cons.IH [OF this] show ?thesis .
  next
    case (Eol ml)
    with Cons.prems have "rmatch r prev rest p ms = Some (e, ms')" by (auto split: if_splits)
    from Cons.IH [OF this] show ?thesis .
  next
    case WordB
    with Cons.prems have "rmatch r prev rest p ms = Some (e, ms')" by (auto split: if_splits)
    from Cons.IH [OF this] show ?thesis .
  next
    case NlOrEol
    with Cons.prems have "(\<exists>prev' rest'. rmatch r prev' rest' (Suc p) ms = Some (e, ms'))
        \<or> (\<exists>prev' rest'. rmatch r prev' rest' p ms = Some (e, ms'))"
      by (auto split: if_splits list.splits option.splits)
    then show ?thesis using Cons.IH by (metis Suc_leD)
  qed
qed

lemma any_tail_matches:
  "rmatch [Mark, Rep AnyChar 0 None Greedy, Mark] prev rest p ms =
     Some (p + length rest, ms @ [p, p + length rest])"
proof -
  have n: "avail AnyChar None rest = length rest" by (induction rest) auto
  have c: "counts Greedy 0 (length rest) = length rest # rev [0..<length rest]"
    by (simp add: counts_def)
  show ?thesis by (simp add: n c)
qed

lemma delimiter_matchD:
  assumes "rmatch (Lit a # Rep Space 0 None Greedy # Lit [10] # r) prev rest p ms = Some res"
  shows "\<exists>ws post. rest = a @ ws @ [10] @ post \<and> list_all isWhiteSpace ws"
proof -
  let ?rest1 = "drop (length a) rest"
  from assms have a: "take (length a) rest = a" by (auto split: if_splits)
  from assms a obtain k where k: "k \<le> avail Space None ?rest1"
    and l: "take (Suc 0) (drop k ?rest1) = [10]"
    by (auto simp: Let_def set_counts split: if_splits dest!: first_some_SomeD)
  from avail_all [OF k] have ws: "list_all isWhiteSpace (take k ?rest1)"
    by (simp add: list_all_iff)
  from l obtain post where post: "drop k ?rest1 = 10 # post"
    by (cases "drop k ?rest1") auto
  have "rest = take (length a) rest @ ?rest1" by simp
  also have "?rest1 = take k ?rest1 @ drop k ?rest1" by (rule append_take_drop_id [symmetric])
  finally have "rest = a @ take k ?rest1 @ [10] @ post" using a post by simp
  with ws show ?thesis by blast
qed

lemma lit_step:
  "rmatch (Lit a # r) prev (a @ xs) p ms = rmatch r (prev_after prev (a @ xs) (length a)) xs (p + length a) ms"
  by simp

lemma first_some_member:
  "x \<in> set xs \<Longrightarrow> f x \<noteq> None \<Longrightarrow> first_some f xs \<noteq> None"
  by (induction xs) (auto split: option.splits)

lemma spaces_then:
  assumes "list_all (cls_ok c) ws"
    and "rmatch r (prev_after prev (ws @ xs) (length ws)) xs (p + length ws) ms \<noteq> None"
  shows "rmatch (Rep c 0 None q # r) prev (ws @ xs) p ms \<noteq> None"
proof -
  define f where "f = (\<lambda>k. rmatch r (prev_after prev (ws @ xs) k) (drop k (ws @ xs)) (p + k) ms)"
  from avail_ge [OF assms(1)] have "length ws \<in> set (counts q 0 (avail c None (ws @ xs)))"
    by (simp add: set_counts)
  moreover from assms(2) have "f (length ws) \<noteq> None" by (simp add: f_def)
  ultimately have "first_some f (counts q 0 (avail c None (ws @ xs))) \<noteq> None"
    by (rule first_some_member)
  then show ?thesis by (simp add: Let_def f_def)
qed

lemma delimiter_matchI:
  assumes "list_all isWhiteSpace ws"
  shows "rmatch content_re prev (asc ''---'' @ ws @ [10] @ post) p [] \<noteq> None"
proof -
  let ?tail = "[Mark, Rep AnyChar 0 None Greedy, Mark]"
  from assms have ws: "list_all (cls_ok Space) ws" by (simp add: list_all_iff)
  have "rmatch (Lit [10] # ?tail) P ([10] @ post) n [] \<noteq> None" for P n
    unfolding lit_step using any_tail_matches by simp
  then have "rmatch (Rep Space 0 None Greedy # Lit [10] # ?tail) P (ws @ [10] @ post) n [] \<noteq> None" for P n
    by (intro spaces_then [OF ws])
  then show ?thesis
    unfolding content_re_def lit_step by blast
qed

lemma asc_dashes_length [simp]: "length (asc ''---'') = 3"
  by (simp add: asc_def)

lemma isWhiteSpace_lf [simp]: "isWhiteSpace 10"
  by (simp add: isWhiteSpace_def)

lemma delimiterAt_iff:
  "delimiterAt s \<longleftrightarrow>
     (\<exists>ws post. s = asc ''---'' @ ws @ [10] @ post \<and> list_all isWhiteSpace ws)"
proof
  assume d: "delimiterAt s"
  let ?r = "drop 3 s"
  from d have t: "take 3 s = asc ''---''" and m: "10 \<in> set (takeWhile isWhiteSpace ?r)"
    by (simp_all add: delimiterAt_def)
  from m obtain a b where ab: "takeWhile isWhiteSpace ?r = a @ 10 # b"
    by (auto dest: split_list)
  then have "set a \<subseteq> set (takeWhile isWhiteSpace ?r)" by auto
  then have wa: "list_all isWhiteSpace a"
    by (auto simp: list_all_iff dest: set_takeWhileD)
  have "?r = takeWhile isWhiteSpace ?r @ dropWhile isWhiteSpace ?r" by simp
  with ab have r: "?r = a @ [10] @ (b @ dropWhile isWhiteSpace ?r)" by simp
  have "s = take 3 s @ ?r" by simp
  with t r have "s = asc ''---'' @ a @ [10] @ (b @ dropWhile isWhiteSpace ?r)" by metis
  with wa show "\<exists>ws post. s = asc ''---'' @ ws @ [10] @ post \<and> list_all isWhiteSpace ws"
    by blast
next
  assume "\<exists>ws post. s = asc ''---'' @ ws @ [10] @ post \<and> list_all isWhiteSpace ws"
  then obtain ws post where s: "s = asc ''---'' @ ws @ [10] @ post"
    and ws: "list_all isWhiteSpace ws" by blast
  from ws have "takeWhile isWhiteSpace (ws @ 10 # post) = ws @ takeWhile isWhiteSpace (10 # post)"
    by (simp add: takeWhile_append2 list_all_iff)
  then have "10 \<in> set (takeWhile isWhiteSpace (ws @ 10 # post))" by simp
  with s show "delimiterAt s" by (simp add: delimiterAt_def)
qed

lemma delimiter_match_result:
  assumes "rmatch (Lit a # Rep Space 0 None Greedy # Lit [10] # r) prev rest p ms = Some res"
  shows "\<exists>k prev'. k < length (drop (length a) rest) \<and> take (length a) rest = a
           \<and> list_all isWhiteSpace (take (Suc k) (drop (length a) rest))
           \<and> rmatch r prev' (drop (Suc k) (drop (length a) rest)) (p + length a + k + 1) ms = Some res"
proof -
  let ?rest1 = "drop (length a) rest"
  from assms have a: "take (length a) rest = a" by (auto split: if_splits)
  from assms a obtain k P where k: "k \<le> avail Space None ?rest1"
    and l: "take (Suc 0) (drop k ?rest1) = [10]"
    and m: "rmatch r P (drop (Suc 0) (drop k ?rest1)) (p + length a + k + 1) ms = Some res"
    by (auto simp: Let_def set_counts add.assoc simp del: drop_drop split: if_splits dest!: first_some_SomeD)
  from avail_all [OF k] have ws: "list_all isWhiteSpace (take k ?rest1)"
    by (simp add: list_all_iff)
  have kl: "k < length ?rest1"
  proof (rule ccontr)
    assume "\<not> k < length ?rest1"
    then have "drop k ?rest1 = []" by simp
    with l show False by simp
  qed
  from l kl have nth: "?rest1 ! k = 10"
    by (metis Cons_nth_drop_Suc list.inject take_Suc_Cons take_0)
  from ws nth kl have "list_all isWhiteSpace (take (Suc k) ?rest1)"
    by (simp add: take_Suc_conv_app_nth)
  with kl a m show ?thesis by (intro exI [of _ k] exI [of _ P]) simp
qed

lemma content_re_match:
  assumes "rmatch content_re prev s p [] = Some (e, ms)"
  shows "\<exists>k. 3 + Suc k \<le> length s \<and> list_all isWhiteSpace (take (Suc k) (drop 3 s))
           \<and> e = p + length s \<and> ms = [p + 3 + Suc k, p + length s]"
proof -
  from delimiter_match_result [OF assms [unfolded content_re_def]]
  obtain k P where k: "k < length (drop 3 s)"
    and ws: "list_all isWhiteSpace (take (Suc k) (drop 3 s))"
    and m: "rmatch [Mark, Rep AnyChar 0 None Greedy, Mark] P (drop (Suc k) (drop 3 s))
              (p + 3 + k + 1) [] = Some (e, ms)"
    by auto
  from m [unfolded any_tail_matches] k have "e = p + length s" "ms = [p + 3 + Suc k, p + length s]"
    by auto
  with k ws show ?thesis by (intro exI [of _ k]) simp
qed

lemma content_re_match_iff: "rmatch content_re prev s p [] \<noteq> None \<longleftrightarrow> delimiterAt s"
proof
  assume "rmatch content_re prev s p [] \<noteq> None"
  then obtain res where "rmatch content_re prev s p [] = Some res" by auto
  from delimiter_matchD [OF this [unfolded content_re_def]] show "delimiterAt s"
    by (simp add: delimiterAt_iff)
next
  assume "delimiterAt s"
  then obtain ws post where "s = asc ''---'' @ ws @ [10] @ post" "list_all isWhiteSpace ws"
    by (auto simp: delimiterAt_iff)
  with delimiter_matchI [of ws prev post p] show "rmatch content_re prev s p [] \<noteq> None" by simp
qed

lemma js_trim_drop_blanks:
  assumes "list_all isWhiteSpace (take n x)"
  shows "js_trim (drop n x) = js_trim x"
proof -
  from assms have "dropWhile isWhiteSpace (take n x @ drop n x) = dropWhile isWhiteSpace (drop n x)"
    by (intro dropWhile_append2) (simp add: list_all_iff)
  then show ?thesis by (simp add: js_trim_def)
qed

lemma no_delimiter_no_match:
  "afterFirstDelimiter s = None \<Longrightarrow> rsearch content_re prev s p = None"
proof (induction s arbitrary: prev p)
  case Nil
  then show ?case by (simp add: content_re_def asc_def)
next
  case (Cons c cs)
  from Cons.prems have nd: "\<not> delimiterAt (c # cs)" and later: "afterFirstDelimiter cs = None"
    by (auto split: if_splits)
  from nd have "rmatch content_re prev (c # cs) p [] = None"
    using content_re_match_iff [of prev "c # cs" p] by blast
  with Cons.IH [OF later] show ?case by simp
qed

lemma delimiter_found:
  assumes "afterFirstDelimiter s = Some r" and "text = pre @ s" and "p = length pre"
  shows "\<exists>m g. rsearch content_re prev s p = Some m \<and> group_of text m 1 = Inr g
           \<and> js_trim g = js_trim r"
  using assms
proof (induction s arbitrary: prev p pre)
  case Nil
  then show ?case by simp
next
  case (Cons c cs)
  show ?case
  proof (cases "delimiterAt (c # cs)")
    case True
    with Cons.prems(1) have r: "r = drop 3 (c # cs)" by simp
    from True obtain e ms where m: "rmatch content_re prev (c # cs) p [] = Some (e, ms)"
      using content_re_match_iff [of prev "c # cs" p] by auto
    from content_re_match [OF m] obtain k where k: "3 + Suc k \<le> length (c # cs)"
      and ws: "list_all isWhiteSpace (take (Suc k) (drop 3 (c # cs)))"
      and e: "e = p + length (c # cs)" and ms: "ms = [p + 3 + Suc k, p + length (c # cs)]"
      by blast
    have s: "rsearch content_re prev (c # cs) p = Some (p, e, ms)" using m by simp
    have "slice text (p + 3 + Suc k) (p + length (c # cs)) = drop (Suc k) (drop 3 (c # cs))"
      using Cons.prems(2,3) k by (simp add: slice_def eval_nat_numeral)
    then have g: "group_of text (p, e, ms) 1 = Inr (drop (Suc k) (drop 3 (c # cs)))"
      using ms by (simp add: group_of_def capture_def)
    from js_trim_drop_blanks [OF ws] r have "js_trim (drop (Suc k) (drop 3 (c # cs))) = js_trim r"
      by simp
    with s g show ?thesis by blast
  next
    case False
    with Cons.prems(1) have later: "afterFirstDelimiter cs = Some r" by simp
    from False have n: "rmatch content_re prev (c # cs) p [] = None"
      using content_re_match_iff [of prev "c # cs" p] by blast
    from Cons.prems(2) have "text = (pre @ [c]) @ cs" by simp
    from Cons.IH [OF later this, of "Suc p" "Some c"] Cons.prems(3)
    obtain m g where "rsearch content_re (Some c) cs (Suc p) = Some m"
      "group_of text m 1 = Inr g" "js_trim g = js_trim r" by auto
    with n show ?thesis by simp
  qed
qed

lemma extractFullContent_bodyOf: "extractFullContent text = Inr (bodyOf text)"
proof (cases "afterFirstDelimiter text")
  case None
  from no_delimiter_no_match [OF None] show ?thesis
    using None by (simp add: extractFullContent_def bodyOf_def re_exec_def)
next
  case (Some r)
  from delimiter_found [OF Some, of "text" "[]" 0 None]
  obtain m g where "rsearch content_re None text 0 = Some m" "group_of text m 1 = Inr g"
    "js_trim g = js_trim r" by auto
  with Some show ?thesis
    by (simp add: extractFullContent_def bodyOf_def re_exec_def bind_err_def)
qed

lemma parse_try_shape:
  "\<exists>ttl meta cats tgs body hs concl.
     extractFullContent text = Inr body
   \<and> extractHeadings body = Inr hs
   \<and> conclusionOf (re_split section_re body) = Inr concl
   \<and> parse_try text =
       Inr \<lparr>titles = [ttl],
            categories_existing = [],
            categories_new = filter (\<lambda>name. length name > 0) cats,
            tags_existing = [],
            tags_new = filter (\<lambda>name. length name > 0) tgs,
            headings = hs,
            metaDescriptions = (if meta = [] then [] else [meta]),
            content = None,
            fullArticle = Some \<lparr>introduction = introductionOf (re_split section_re body),
                                 mainContent = body,
                                 conclusion = concl\<rparr>\<rparr>"
proof -
  obtain ttl where 1: "extractTitle text = Inr ttl" using extractTitle_total by blast
  obtain meta where 2: "extractMetaDescription text = Inr meta"
    using extractMetaDescription_total by blast
  obtain cats where 3: "extractNames category_label text = Inr cats"
    using extractNames_total by blast
  obtain tgs where 4: "extractNames tag_label text = Inr tgs" using extractNames_total by blast
  obtain body where 5: "extractFullContent text = Inr body"
    using extractFullContent_total by blast
  obtain hs where 6: "extractHeadings body = Inr hs" using extractHeadings_valid by blast
  obtain concl where 7: "conclusionOf (re_split section_re body) = Inr concl"
    using conclusionOf_total by blast
  have "parse_try text =
       Inr \<lparr>titles = [ttl],
            categories_existing = [],
            categories_new = filter (\<lambda>name. length name > 0) cats,
            tags_existing = [],
            tags_new = filter (\<lambda>name. length name > 0) tgs,
            headings = hs,
            metaDescriptions = (if meta = [] then [] else [meta]),
            content = None,
            fullArticle = Some \<lparr>introduction = introductionOf (re_split section_re body),
                                 mainContent = body,
                                 conclusion = concl\<rparr>\<rparr>"
    using 1 2 3 4 5 6 7 by (simp add: parse_try_def bind_err_def)
  with 5 6 7 show ?thesis by blast
qed

lemma parse_fields:
  assumes "extractTitle text = Inr ttl"
    and "extractNames category_label text = Inr cats"
    and "extractNames tag_label text = Inr tgs"
    and "extractFullContent text = Inr body"
    and "extractHeadings body = Inr hs"
  shows "titles (parseMarkdownArticle text) = [ttl]
       \<and> categories_new (parseMarkdownArticle text) = filter (\<lambda>name. length name > 0) cats
       \<and> tags_new (parseMarkdownArticle text) = filter (\<lambda>name. length name > 0) tgs
       \<and> headings (parseMarkdownArticle text) = hs
       \<and> (\<exists>concl. conclusionOf (re_split section_re body) = Inr concl
            \<and> fullArticle (parseMarkdownArticle text) =
                Some \<lparr>introduction = introductionOf (re_split section_re body),
                      mainContent = body, conclusion = concl\<rparr>)"
proof -
  obtain meta where m: "extractMetaDescription text = Inr meta"
    using extractMetaDescription_total by blast
  obtain concl where c: "conclusionOf (re_split section_re body) = Inr concl"
    using conclusionOf_total by blast
  from assms m c show ?thesis
    by (simp add: parseMarkdownArticle_def parse_try_def bind_err_def)
qed


lemma js_substring_from_negative: "a \<le> 0 \<Longrightarrow> js_substring_from s a = s"
  by (simp add: js_substring_from_def js_substring_def Let_def min_def max_def)
















lemmas parse_ev = parseMarkdownArticle_def parse_try_def extractTitle_def extractMetaDescription_def
  extractNames_def extractFullContent_def extractHeadings_def headingOf_def introductionOf_def
  conclusionOf_def nth_opt_def re_split_def title_re_def labeled_re_def content_re_def
  heading_re_def section_re_def bracket_re_def meta_label_def category_label_def tag_label_def
  js_substring_def js_substring_from_def

lemmas spec_ev = bodyOf_def delimiterAt_def markerAt_def introductionText_def hasDelimiterLine_def
  isRuleLine_def js_trim_def isWhiteSpace_def isLineTerminator_def asc_def

text \<open>
  Claim C3 as stated fails: the text \<open>a---\<close>, line feed, \<open>b\<close> has no horizontal-rule line (its
  lines are \<open>a---\<close> and \<open>b\<close>), yet the parser cuts it after the hyphens and returns \<open>b\<close> as
  \<open>fullArticle.mainContent\<close>, not the input.
\<close>

theorem parseMarkdownArticle_cuts_inside_line:
  "\<not> hasDelimiterLine (asc ''a---'' @ [10] @ asc ''b'')
   \<and> map_option mainContent (fullArticle (parseMarkdownArticle (asc ''a---'' @ [10] @ asc ''b''))) =
       Some (asc ''b'')
   \<and> asc ''b'' \<noteq> asc ''a---'' @ [10] @ asc ''b''"
  by (simp add: parse_ev re_ev spec_ev)

text \<open>
  Claim C3, amended (the parser never raises and degrades to the raw input).  For every string
  the \<open>try\<close> block itself completes, so the result is never the fallback; the result has exactly
  one title, no existing-taxonomy ids, no empty category or tag name, at most one meta
  description, a \<open>fullArticle\<close>, and only headings of level 2 to 6 with a synthesized
  description; and when the input has nowhere three hyphens followed by blanks that include a
  line feed, \<open>fullArticle.mainContent\<close> is the input itself.
\<close>

theorem parseMarkdownArticle_never_raises:
  "parse_try text = Inr (parseMarkdownArticle text)
   \<and> length (titles (parseMarkdownArticle text)) = 1
   \<and> categories_existing (parseMarkdownArticle text) = []
   \<and> tags_existing (parseMarkdownArticle text) = []
   \<and> [] \<notin> set (categories_new (parseMarkdownArticle text))
   \<and> [] \<notin> set (tags_new (parseMarkdownArticle text))
   \<and> length (metaDescriptions (parseMarkdownArticle text)) \<le> 1
   \<and> list_all validHeading (headings (parseMarkdownArticle text))
   \<and> fullArticle (parseMarkdownArticle text) \<noteq> None
   \<and> (afterFirstDelimiter text = None \<longrightarrow>
        map_option mainContent (fullArticle (parseMarkdownArticle text)) = Some text)"
proof -
  from parse_try_shape [of "text"] obtain ttl meta cats tgs body hs concl where
    b: "extractFullContent text = Inr body"
    and h: "extractHeadings body = Inr hs"
    and p: "parse_try text =
       Inr \<lparr>titles = [ttl],
            categories_existing = [],
            categories_new = filter (\<lambda>name. length name > 0) cats,
            tags_existing = [],
            tags_new = filter (\<lambda>name. length name > 0) tgs,
            headings = hs,
            metaDescriptions = (if meta = [] then [] else [meta]),
            content = None,
            fullArticle = Some \<lparr>introduction = introductionOf (re_split section_re body),
                                 mainContent = body,
                                 conclusion = concl\<rparr>\<rparr>"
    by blast
  from h extractHeadings_valid [of body] have v: "list_all validHeading hs" by auto
  have d: "afterFirstDelimiter text = None \<Longrightarrow> body = text"
    using b extractFullContent_bodyOf [of "text"] by (simp add: bodyOf_def)
  from p v d show ?thesis
    by (simp add: parseMarkdownArticle_def)
qed

theorem parseMarkdownArticle_never_raises_witness:
  "parse_try [] = Inr (parseMarkdownArticle [])
   \<and> length (titles (parseMarkdownArticle [])) = 1
   \<and> list_all validHeading (headings (parseMarkdownArticle []))
   \<and> map_option mainContent (fullArticle (parseMarkdownArticle [])) = Some []
   \<and> map_option mainContent (fullArticle (parseMarkdownArticle (asc ''a --- b'' @ [10] @ asc ''- - -''))) =
       Some (asc ''a --- b'' @ [10] @ asc ''- - -'')"
proof -
  have 1: "afterFirstDelimiter [] = None" by simp
  have 2: "afterFirstDelimiter (asc ''a --- b'' @ [10] @ asc ''- - -'') = None"
    by (simp add: spec_ev)
  from parseMarkdownArticle_never_raises [of "[]"]
    parseMarkdownArticle_never_raises [of "asc ''a --- b'' @ [10] @ asc ''- - -''"] 1 2
  show ?thesis by blast
qed





section \<open>The worked example\<close>

lemma ex150_title: "extractTitle workedExample150 = Inr ex_title"
  by (simp add: extractTitle_def title_re_def workedExample150_def ex_title_def re_ev)

lemma ex150_cats: "extractNames category_label workedExample150 = Inr [asc ''SEO'', ex_cat2]"
  by (simp add: extractNames_def labeled_re_def category_label_def bracket_re_def
      workedExample150_def ex_cat2_def re_ev)

lemma ex150_tags: "extractNames tag_label workedExample150 = Inr [asc ''SEO'', ex_tag2, ex_tag3]"
  by (simp add: extractNames_def labeled_re_def tag_label_def bracket_re_def
      workedExample150_def ex_tag2_def ex_tag3_def re_ev)

lemma ex150_body: "extractFullContent workedExample150 = Inr exampleBody"
  by (simp add: extractFullContent_def content_re_def workedExample150_def exampleBody_def re_ev)

lemma exlit_title: "extractTitle workedExample = Inr ex_title"
  by (simp add: extractTitle_def title_re_def workedExample_def ex_title_def re_ev)

lemma exlit_cats: "extractNames category_label workedExample = Inr [asc ''SEO'', ex_cat2]"
  by (simp add: extractNames_def labeled_re_def category_label_def bracket_re_def
      workedExample_def ex_cat2_def re_ev)

lemma exlit_tags: "extractNames tag_label workedExample = Inr [asc ''SEO'', ex_tag2, ex_tag3]"
  by (simp add: extractNames_def labeled_re_def tag_label_def bracket_re_def
      workedExample_def ex_tag2_def ex_tag3_def re_ev)

lemma exlit_body: "extractFullContent workedExample = Inr exampleBody"
  by (simp add: extractFullContent_def content_re_def workedExample_def exampleBody_def re_ev)

lemma ex_headings:
  "extractHeadings exampleBody =
     Inr [\<lparr>level = 2, text' = ex_h1, description = ex_h1 @ description_suffix\<rparr>,
          \<lparr>level = 2, text' = ex_h2, description = ex_h2 @ description_suffix\<rparr>]"
  by (simp add: extractHeadings_def headingOf_def heading_re_def exampleBody_def
      ex_h1_def ex_h2_def re_ev)

text \<open>
  Claim C4 (the worked example).  On the example input, with the meta description either as the
  specification prints it or as a string of 150 code units, the parser returns the title, the
  two new categories, the three new tags and the two level-2 headings of the specification, in
  that order; each heading carries its synthesized description.
\<close>

theorem parseMarkdownArticle_worked_example:
  "titles (parseMarkdownArticle workedExample150) = [ex_title]
   \<and> categories_new (parseMarkdownArticle workedExample150) = [asc ''SEO'', ex_cat2]
   \<and> tags_new (parseMarkdownArticle workedExample150) = [asc ''SEO'', ex_tag2, ex_tag3]
   \<and> headings (parseMarkdownArticle workedExample150) =
        [\<lparr>level = 2, text' = ex_h1, description = ex_h1 @ description_suffix\<rparr>,
         \<lparr>level = 2, text' = ex_h2, description = ex_h2 @ description_suffix\<rparr>]
   \<and> titles (parseMarkdownArticle workedExample) = [ex_title]
   \<and> categories_new (parseMarkdownArticle workedExample) = [asc ''SEO'', ex_cat2]
   \<and> tags_new (parseMarkdownArticle workedExample) = [asc ''SEO'', ex_tag2, ex_tag3]
   \<and> headings (parseMarkdownArticle workedExample) =
        [\<lparr>level = 2, text' = ex_h1, description = ex_h1 @ description_suffix\<rparr>,
         \<lparr>level = 2, text' = ex_h2, description = ex_h2 @ description_suffix\<rparr>]"
proof -
  have ne: "[] \<noteq> ex_cat2" "[] \<noteq> ex_tag2" "[] \<noteq> ex_tag3"
    by (simp_all add: ex_cat2_def ex_tag2_def ex_tag3_def)
  from parse_fields [OF ex150_title ex150_cats ex150_tags ex150_body ex_headings]
    parse_fields [OF exlit_title exlit_cats exlit_tags exlit_body ex_headings] ne
  show ?thesis by (simp add: asc_def)
qed

section \<open>Properties of the formatter\<close>

lemma paragraphsOf_nonempty_strings: "[] \<notin> set (paragraphsOf txt)"
  by (simp add: paragraphsOf_def)

lemma paragraphsOf_Nil: "paragraphsOf [] = []"
  by (simp add: paragraphsOf_def re_split_def paragraph_re_def js_trim_def)

lemma join_with_Nil_iff: "[] \<notin> set xs \<Longrightarrow> join_with sep xs = [] \<longleftrightarrow> xs = []"
  by (induction sep xs rule: join_with.induct) auto

lemma ceiling_covers:
  assumes "0 < n"
  shows "P \<le> n * nat \<lceil>rat_of_nat P / rat_of_nat n\<rceil>"
proof -
  let ?c = "nat \<lceil>rat_of_nat P / rat_of_nat n\<rceil>"
  have "0 \<le> rat_of_nat P / rat_of_nat n" by simp
  then have "- 1 < rat_of_nat P / rat_of_nat n" by linarith
  then have nonneg: "0 \<le> \<lceil>rat_of_nat P / rat_of_nat n\<rceil>" by (simp only: zero_le_ceiling)
  have "rat_of_nat P / rat_of_nat n \<le> of_int \<lceil>rat_of_nat P / rat_of_nat n\<rceil>"
    by (rule le_of_int_ceiling)
  also have "\<dots> = rat_of_nat ?c" using nonneg by simp
  finally have le: "rat_of_nat P / rat_of_nat n \<le> rat_of_nat ?c" .
  have pos: "0 < rat_of_nat n" using assms by simp
  from le pos have "rat_of_nat P \<le> rat_of_nat ?c * rat_of_nat n"
    by (simp only: pos_divide_le_eq)
  also have "\<dots> = rat_of_nat (n * ?c)" by (simp only: of_nat_mult mult.commute)
  finally have "rat_of_nat P \<le> rat_of_nat (n * ?c)" .
  then show ?thesis by (simp only: of_nat_le_iff)
qed

lemma concat_groups: "concat (map (\<lambda>i. take c (drop (i * c) xs)) [0..<n]) = take (n * c) xs"
proof (induction n)
  case 0
  then show ?case by simp
next
  case (Suc n)
  have "take (n * c) xs @ take c (drop (n * c) xs) = take (n * c + c) xs"
    by (simp add: take_add)
  with Suc show ?case by (simp add: add.commute)
qed


lemma blank_run_iff:
  "10 \<in> set (takeWhile isWhiteSpace r) \<longleftrightarrow>
     (\<exists>ws post. r = ws @ [10] @ post \<and> list_all isWhiteSpace ws)"
proof
  assume "10 \<in> set (takeWhile isWhiteSpace r)"
  then obtain a b where ab: "takeWhile isWhiteSpace r = a @ 10 # b"
    by (auto dest: split_list)
  then have "set a \<subseteq> set (takeWhile isWhiteSpace r)" by auto
  then have wa: "list_all isWhiteSpace a"
    by (auto simp: list_all_iff dest: set_takeWhileD)
  have "r = takeWhile isWhiteSpace r @ dropWhile isWhiteSpace r" by simp
  with ab have "r = a @ [10] @ (b @ dropWhile isWhiteSpace r)" by simp
  with wa show "\<exists>ws post. r = ws @ [10] @ post \<and> list_all isWhiteSpace ws" by blast
next
  assume "\<exists>ws post. r = ws @ [10] @ post \<and> list_all isWhiteSpace ws"
  then obtain ws post where r: "r = ws @ [10] @ post" and ws: "list_all isWhiteSpace ws" by blast
  from ws have "takeWhile isWhiteSpace (ws @ 10 # post) = ws @ takeWhile isWhiteSpace (10 # post)"
    by (simp add: takeWhile_append2 list_all_iff)
  with r show "10 \<in> set (takeWhile isWhiteSpace r)" by simp
qed

lemma paragraph_re_match_iff: "rmatch paragraph_re prev s q [] \<noteq> None \<longleftrightarrow> blankLineAt s"
proof
  assume "rmatch paragraph_re prev s q [] \<noteq> None"
  then obtain res where "rmatch paragraph_re prev s q [] = Some res" by auto
  from delimiter_matchD [OF this [unfolded paragraph_re_def]]
  obtain ws post where "s = [10] @ ws @ [10] @ post" "list_all isWhiteSpace ws" by blast
  then show "blankLineAt s" using blank_run_iff [of "ws @ [10] @ post"]
    by (auto simp: blankLineAt_def)
next
  assume "blankLineAt s"
  then obtain r where s: "s = 10 # r" and "10 \<in> set (takeWhile isWhiteSpace r)"
    by (cases s) (auto simp: blankLineAt_def)
  then obtain ws post where r: "r = ws @ [10] @ post" and ws: "list_all isWhiteSpace ws"
    using blank_run_iff [of r] by blast
  from ws have w: "list_all (cls_ok Space) ws" by (simp add: list_all_iff)
  have "rmatch [Lit [10]] P ([10] @ post) n [] \<noteq> None" for P n by simp
  then have "rmatch [Rep Space 0 None Greedy, Lit [10]] P (ws @ [10] @ post) n [] \<noteq> None" for P n
    by (intro spaces_then [OF w])
  with s r show "rmatch paragraph_re prev s q [] \<noteq> None"
    unfolding paragraph_re_def by simp
qed

lemma paragraph_re_end:
  assumes "rmatch paragraph_re prev s q [] = Some (e, ms)"
  shows "q < e"
proof -
  from assms have "rmatch [Rep Space 0 None Greedy, Lit [10]] (prev_after prev s 1) (drop 1 s) (q + 1) []
      = Some (e, ms)"
    by (auto simp: paragraph_re_def split: if_splits)
  from rmatch_end_ge [OF this] show ?thesis by simp
qed

lemma paragraph_re_prev: "rmatch paragraph_re prev s q ms = rmatch paragraph_re prev' s q ms"
  by (simp add: paragraph_re_def cong: if_cong)

lemma split_prev:
  "re_split_go paragraph_re prev rest q p acc skip = re_split_go paragraph_re prev' rest q p acc skip"
proof (cases rest)
  case Nil
  then show ?thesis by simp
next
  case (Cons c cs)
  then show ?thesis using paragraph_re_prev [of prev "c # cs" q "[]" prev'] by simp
qed

lemma blankLineAt_append: "blankLineAt s \<Longrightarrow> blankLineAt (s @ y)"
proof -
  assume "blankLineAt s"
  then obtain r where s: "s = 10 # r" and "10 \<in> set (takeWhile isWhiteSpace r)"
    by (cases s) (auto simp: blankLineAt_def)
  then obtain ws post where "r = ws @ [10] @ post" "list_all isWhiteSpace ws"
    using blank_run_iff [of r] by blast
  then have "r @ y = ws @ [10] @ (post @ y) \<and> list_all isWhiteSpace ws" by simp
  then have "10 \<in> set (takeWhile isWhiteSpace (r @ y))"
    using blank_run_iff [of "r @ y"] by blast
  with s show ?thesis by (simp add: blankLineAt_def)
qed

lemma hasBlankLine_iff: "hasBlankLine x \<longleftrightarrow> (\<exists>j<length x. blankLineAt (drop j x))"
proof (induction x)
  case Nil
  then show ?case by simp
next
  case (Cons c x)
  show ?case
  proof
    assume "hasBlankLine (c # x)"
    then consider "blankLineAt (c # x)" | "hasBlankLine x" by auto
    then show "\<exists>j<length (c # x). blankLineAt (drop j (c # x))"
    proof cases
      case 1
      then show ?thesis by (intro exI [of _ 0]) simp
    next
      case 2
      with Cons.IH obtain j where "j < length x" "blankLineAt (drop j x)" by blast
      then show ?thesis by (intro exI [of _ "Suc j"]) simp
    qed
  next
    assume "\<exists>j<length (c # x). blankLineAt (drop j (c # x))"
    then obtain j where j: "j < length (c # x)" "blankLineAt (drop j (c # x))" by blast
    show "hasBlankLine (c # x)"
    proof (cases j)
      case 0
      with j show ?thesis by simp
    next
      case (Suc j')
      with j Cons.IH show ?thesis by auto
    qed
  qed
qed

lemma hasBlankLine_infix: "hasBlankLine x \<Longrightarrow> hasBlankLine (a @ x @ b)"
proof -
  assume "hasBlankLine x"
  then obtain j where j: "j < length x" "blankLineAt (drop j x)"
    by (auto simp: hasBlankLine_iff)
  from blankLineAt_append [OF j(2), of b] j(1)
  have "blankLineAt (drop (length a + j) (a @ x @ b))" by simp
  moreover from j(1) have "length a + j < length (a @ x @ b)" by simp
  ultimately show ?thesis unfolding hasBlankLine_iff by blast
qed

lemma js_trim_infix: "\<exists>a b. x = a @ js_trim x @ b"
proof -
  let ?d = "dropWhile isWhiteSpace x"
  have "rev (takeWhile isWhiteSpace (rev ?d) @ dropWhile isWhiteSpace (rev ?d)) = ?d"
    by (simp only: takeWhile_dropWhile_id rev_rev_ident)
  then have "rev (dropWhile isWhiteSpace (rev ?d)) @ rev (takeWhile isWhiteSpace (rev ?d)) = ?d"
    by (simp only: rev_append)
  then have "?d = js_trim x @ rev (takeWhile isWhiteSpace (rev ?d))"
    by (simp only: js_trim_def)
  moreover have "x = takeWhile isWhiteSpace x @ ?d" by simp
  ultimately have "x = takeWhile isWhiteSpace x @ js_trim x @ rev (takeWhile isWhiteSpace (rev ?d))"
    by simp
  then show ?thesis by blast
qed

lemma js_trim_ends:
  assumes "js_trim x \<noteq> []"
  shows "\<not> isWhiteSpace (hd (js_trim x)) \<and> \<not> isWhiteSpace (last (js_trim x))"
proof -
  let ?d = "dropWhile isWhiteSpace x"
  let ?r = "dropWhile isWhiteSpace (rev ?d)"
  from assms have r: "?r \<noteq> []" by (simp add: js_trim_def)
  then have "\<not> isWhiteSpace (hd ?r)" by (rule hd_dropWhile)
  with r have l: "\<not> isWhiteSpace (last (js_trim x))" by (simp add: js_trim_def last_rev)
  have d: "?d \<noteq> []"
  proof
    assume "?d = []"
    then have "?r = []" by (simp only: rev.simps dropWhile.simps)
    with r show False by simp
  qed
  then have hd: "\<not> isWhiteSpace (hd ?d)" by (rule hd_dropWhile)
  have "rev (takeWhile isWhiteSpace (rev ?d) @ ?r) = ?d"
    by (simp only: takeWhile_dropWhile_id rev_rev_ident)
  then have "rev ?r @ rev (takeWhile isWhiteSpace (rev ?d)) = ?d"
    by (simp only: rev_append)
  then have "?d = js_trim x @ rev (takeWhile isWhiteSpace (rev ?d))" by (simp only: js_trim_def)
  with assms have "hd ?d = hd (js_trim x)" by (metis hd_append2)
  with hd l show ?thesis by simp
qed

lemma js_trim_fixed:
  assumes "x \<noteq> []" "\<not> isWhiteSpace (hd x)" "\<not> isWhiteSpace (last x)"
  shows "js_trim x = x"
proof -
  from assms(1,2) have d: "dropWhile isWhiteSpace x = x" by (cases x) simp_all
  from assms(1) obtain a l where rx: "rev x = a # l" by (cases "rev x") auto
  then have "a = last x" by (metis hd_rev list.sel(1))
  with assms(3) have "\<not> isWhiteSpace a" by simp
  then have "dropWhile isWhiteSpace (a # l) = a # l" by simp
  with rx have "dropWhile isWhiteSpace (rev x) = rev x" by (simp only:)
  with d show ?thesis by (simp add: js_trim_def)
qed

lemma js_trim_idem: "js_trim (js_trim x) = js_trim x"
proof (cases "js_trim x = []")
  case True
  have "js_trim [] = []" by (simp add: js_trim_def)
  with True show ?thesis by simp
next
  case False
  from js_trim_ends [OF False] False show ?thesis by (intro js_trim_fixed) simp_all
qed

lemma paragraph_ends:
  assumes "isParagraph x"
  shows "x \<noteq> [] \<and> \<not> isWhiteSpace (hd x) \<and> \<not> isWhiteSpace (last x)"
  using assms js_trim_ends [of x] by (simp add: isParagraph_def)

lemma paragraph_context:
  assumes "isParagraph x" and "j < length x"
  shows "\<not> blankLineAt (drop j x @ y)"
proof
  assume b: "blankLineAt (drop j x @ y)"
  from assms(2) obtain d u where du: "drop j x = d # u" by (cases "drop j x") auto
  with b have d: "d = 10" and m: "10 \<in> set (takeWhile isWhiteSpace (u @ y))"
    by (simp_all add: blankLineAt_def)
  from paragraph_ends [OF assms(1)] have l: "\<not> isWhiteSpace (last x)" by simp
  from assms(2) have "last (drop j x) = last x" by simp
  with du have lu: "last (d # u) = last x" by simp
  have "u \<noteq> []"
  proof
    assume "u = []"
    with lu d l show False by simp
  qed
  with lu have "last u = last x" by simp
  moreover from \<open>u \<noteq> []\<close> have "last u \<in> set u" by (rule last_in_set)
  ultimately have "last u \<in> set u" and "\<not> isWhiteSpace (last u)" using l by simp_all
  then have "takeWhile isWhiteSpace (u @ y) = takeWhile isWhiteSpace u"
    by (rule takeWhile_append1)
  with m d du have "blankLineAt (drop j x)" by (simp add: blankLineAt_def)
  with assms(2) have "hasBlankLine x" unfolding hasBlankLine_iff by blast
  with assms(1) show False by (simp add: isParagraph_def)
qed

lemma split_skip_clean:
  assumes "\<forall>j<length x. \<not> blankLineAt (drop j x @ y)"
  shows "re_split_go paragraph_re prev (x @ y) q p acc 0 =
         re_split_go paragraph_re prev' y (q + length x) p (rev x @ acc) 0"
  using assms
proof (induction x arbitrary: prev q acc)
  case Nil
  then show ?case using split_prev [of prev y q p acc 0 prev'] by simp
next
  case (Cons c x)
  from Cons.prems have "\<not> blankLineAt (drop 0 (c # x) @ y)" by blast
  then have "\<not> blankLineAt (c # x @ y)" by simp
  with paragraph_re_match_iff [of prev "c # x @ y" q]
  have n: "rmatch paragraph_re prev (c # x @ y) q [] = None" by blast
  have "\<forall>j<length x. \<not> blankLineAt (drop j x @ y)"
  proof (intro allI impI)
    fix j assume "j < length x"
    then have "Suc j < length (c # x)" by simp
    with Cons.prems have "\<not> blankLineAt (drop (Suc j) (c # x) @ y)" by blast
    then show "\<not> blankLineAt (drop j x @ y)" by simp
  qed
  from Cons.IH [OF this, of "Some c" "Suc q" "c # acc"] n show ?case by simp
qed

lemma split_at_separator:
  assumes "\<not> isWhiteSpace c" and "p \<le> q"
  shows "re_split_go paragraph_re prev (10 # 10 # c # y) q p acc 0 =
         rev acc # re_split_go paragraph_re prev' (c # y) (q + 2) (q + 2) [] 0"
proof -
  from assms(1) have c: "c \<noteq> 10" by auto
  from assms(1) c have "rmatch paragraph_re prev (10 # 10 # c # y) q [] = Some (q + 2, [])"
    by (simp add: paragraph_re_def counts_def Let_def)
  with assms(2) show ?thesis
    using split_prev [of "Some 10" "c # y" "Suc (Suc q)" "Suc (Suc q)" "[]" 0 prev']
    by simp
qed

lemma join_with_Cons2: "join_with sep (x # y # ys) = x @ sep @ join_with sep (y # ys)"
  by simp

lemma split_join:
  assumes "list_all isParagraph ps" and "ps \<noteq> []" and "p \<le> q"
  shows "re_split_go paragraph_re prev (join_with [10, 10] ps) q p [] 0 = ps"
  using assms
proof (induction ps arbitrary: prev q p)
  case Nil
  then show ?case by simp
next
  case (Cons x ps)
  from Cons.prems(1) have x: "isParagraph x" and rest: "list_all isParagraph ps" by simp_all
  show ?case
  proof (cases ps)
    case Nil
    from x have "\<forall>j<length x. \<not> blankLineAt (drop j x @ [])"
      using paragraph_context [OF x] by blast
    from split_skip_clean [OF this, of prev q p "[]" None] Nil show ?thesis by simp
  next
    case (Cons y ys)
    let ?J = "join_with [10, 10] (y # ys)"
    from rest Cons have y: "isParagraph y" by simp
    from paragraph_ends [OF y] obtain c y' where yc: "y = c # y'" and c: "\<not> isWhiteSpace c"
      by (cases y) auto
    then obtain J' where J: "?J = c # J'" by (cases ys) simp_all
    have clean: "\<forall>j<length x. \<not> blankLineAt (drop j x @ (10 # 10 # ?J))"
      using paragraph_context [OF x] by blast
    have "re_split_go paragraph_re prev (join_with [10, 10] (x # ps)) q p [] 0 =
          re_split_go paragraph_re prev (x @ (10 # 10 # ?J)) q p [] 0"
      using Cons by simp
    also have "\<dots> = re_split_go paragraph_re None (10 # 10 # ?J) (q + length x) p (rev x @ []) 0"
      by (rule split_skip_clean [OF clean])
    also have "\<dots> = rev (rev x @ []) # re_split_go paragraph_re None (c # J') (q + length x + 2) (q + length x + 2) [] 0"
      unfolding J using c Cons.prems(3) by (intro split_at_separator) simp_all
    also have "re_split_go paragraph_re None (c # J') (q + length x + 2) (q + length x + 2) [] 0 = ps"
      using Cons.IH [OF rest, of "q + length x + 2" "q + length x + 2" None] Cons J by simp
    finally show ?thesis by simp
  qed
qed

lemma paragraphsOf_join:
  assumes "list_all isParagraph g"
  shows "paragraphsOf (join_with [10, 10] g) = g"
proof (cases "g = []")
  case True
  then show ?thesis by (simp add: paragraphsOf_Nil)
next
  case False
  from assms have ne: "[] \<notin> set g" by (auto simp: list_all_iff isParagraph_def)
  with False have "join_with [10, 10] g \<noteq> []" by (simp add: join_with_Nil_iff)
  then have "re_split paragraph_re (join_with [10, 10] g) = g"
    using split_join [OF assms False, of 0 0 None] by (simp add: re_split_def)
  moreover from assms have "map js_trim g = g"
    by (induction g) (simp_all add: isParagraph_def)
  moreover from ne have "filter (\<lambda>p. length p > 0) g = g"
    by (induction g) auto
  ultimately show ?thesis by (simp add: paragraphsOf_def)
qed

lemma split_pieces_clean:
  assumes "\<forall>j<length acc. \<not> blankLineAt (drop j (rev acc) @ rest)"
    and "0 < skip \<longrightarrow> acc = []" and "p \<le> q + skip"
  shows "\<forall>piece \<in> set (re_split_go paragraph_re prev rest q p acc skip). \<not> hasBlankLine piece"
  using assms
proof (induction rest arbitrary: prev q p acc skip)
  case Nil
  have "\<not> hasBlankLine (rev acc)"
    unfolding hasBlankLine_iff using Nil.prems(1) by simp
  then show ?case by simp
next
  case (Cons c rest)
  show ?case
  proof (cases "0 < skip")
    case True
    with Cons.prems(2) have acc: "acc = []" by simp
    from True Cons.prems(3) have "p \<le> Suc q + (skip - 1)" by simp
    from Cons.IH [of "[]" "skip - 1" p "Suc q" "Some c", OF _ _ this] True acc show ?thesis by simp
  next
    case False
    then have skip: "skip = 0" by simp
    with Cons.prems(3) have pq: "p \<le> q" by simp
    show ?thesis
    proof (cases "rmatch paragraph_re prev (c # rest) q []")
      case None
      with paragraph_re_match_iff [of prev "c # rest" q] have nb: "\<not> blankLineAt (c # rest)" by simp
      have "\<forall>j<length (c # acc). \<not> blankLineAt (drop j (rev (c # acc)) @ rest)"
      proof (intro allI impI)
        fix j assume j: "j < length (c # acc)"
        show "\<not> blankLineAt (drop j (rev (c # acc)) @ rest)"
        proof (cases "j < length acc")
          case True
          with Cons.prems(1) have "\<not> blankLineAt (drop j (rev acc) @ c # rest)" by blast
          with True show ?thesis by simp
        next
          case False
          with j have "j = length acc" by simp
          with nb show ?thesis by simp
        qed
      qed
      from Cons.IH [of "c # acc" 0 p "Suc q" "Some c", OF this] pq None skip show ?thesis by simp
    next
      case (Some r)
      obtain e ms where r: "r = (e, ms)" by (cases r)
      from paragraph_re_end [of prev "c # rest" q e ms] Some r have e: "q < e" by simp
      have "\<not> hasBlankLine (rev acc)"
      proof
        assume "hasBlankLine (rev acc)"
        then obtain j where j: "j < length acc" "blankLineAt (drop j (rev acc))"
          by (auto simp: hasBlankLine_iff)
        from blankLineAt_append [OF j(2), of "c # rest"] Cons.prems(1) j(1) show False by blast
      qed
      moreover from e have "e \<le> Suc q + (e - q - 1)" by simp
      from Cons.IH [of "[]" "e - q - 1" e "Suc q" "Some c", OF _ _ this]
      have "\<forall>piece \<in> set (re_split_go paragraph_re (Some c) rest (Suc q) e [] (e - q - 1)).
              \<not> hasBlankLine piece" by simp
      ultimately show ?thesis using Some r e pq skip by auto
    qed
  qed
qed

lemma paragraphsOf_paragraphs: "list_all isParagraph (paragraphsOf txt)"
proof -
  have clean: "\<not> hasBlankLine piece" if "piece \<in> set (re_split paragraph_re txt)" for piece
  proof (cases "txt = []")
    case True
    with that show ?thesis by (simp add: re_split_def paragraph_re_def split: option.splits)
  next
    case False
    with that have "piece \<in> set (re_split_go paragraph_re None txt 0 0 [] 0)"
      by (simp add: re_split_def)
    with split_pieces_clean [of "[]" "txt" 0 0 0 None] show ?thesis by simp
  qed
  have "isParagraph (js_trim piece)"
    if "piece \<in> set (re_split paragraph_re txt)" and "js_trim piece \<noteq> []" for piece
  proof -
    from js_trim_infix [of piece] obtain a b where "piece = a @ js_trim piece @ b" by blast
    with hasBlankLine_infix [of "js_trim piece" a b] clean [OF that(1)]
    have "\<not> hasBlankLine (js_trim piece)" by auto
    with that(2) show ?thesis by (simp add: isParagraph_def js_trim_idem)
  qed
  then show ?thesis by (auto simp: paragraphsOf_def list_all_iff)
qed

lemma replace_line_feeds_go:
  assumes "s = pre @ rest" and "q = length pre" and "p0 \<le> q"
  shows "replace_go repl s p0 (re_scan [Lit [10]] prev rest q 0) =
         slice s p0 q @ concat (map (\<lambda>c. if c = 10 then repl else [c]) rest)"
  using assms
proof (induction rest arbitrary: pre q p0 prev)
  case Nil
  then show ?case by (simp add: slice_def)
next
  case (Cons c rest)
  from Cons.prems have s: "s = (pre @ [c]) @ rest" and q: "Suc q = length (pre @ [c])" by simp_all
  show ?case
  proof (cases "c = 10")
    case True
    from Cons.IH [OF s q, of "Suc q" "Some c"] True Cons.prems
    show ?thesis by (simp add: slice_def)
  next
    case False
    from Cons.prems(3) have "p0 \<le> Suc q" by simp
    from Cons.IH [OF s q this, of "Some c"] False Cons.prems
    show ?thesis by (simp add: slice_def)
  qed
qed

lemma htmlParagraph_replace:
  "asc ''<p>'' @ re_replace_all [Lit [10]] (asc ''<br>'') p @ asc ''</p>'' = htmlParagraph p"
  using replace_line_feeds_go [of p "[]" p 0 0 "asc ''<br>''" None]
  by (simp add: re_replace_all_def htmlParagraph_def slice_def)

lemma formatTextToParagraphs_html: "formatTextToParagraphs t = htmlParagraphs (paragraphsOf t)"
  by (simp add: formatTextToParagraphs_def htmlParagraphs_def htmlParagraph_replace paragraphsOf_Nil)

lemma splitContentByHeadings_take_drop:
  assumes "paragraphsOf mc \<noteq> []"
  shows "splitContentByHeadings mc hs =
           map (\<lambda>i. join_with [10, 10]
                  (take (nat \<lceil>rat_of_nat (length (paragraphsOf mc)) / rat_of_nat (length hs)\<rceil>)
                     (drop (i * nat \<lceil>rat_of_nat (length (paragraphsOf mc)) / rat_of_nat (length hs)\<rceil>)
                        (paragraphsOf mc))))
               [0..<length hs]"
proof -
  have "take (min (i * c + c) (length xs) - i * c) (drop (i * c) xs) = take c (drop (i * c) xs)"
    for i c and xs :: "jsstring list"
    by (cases "i * c + c \<le> length xs") (simp_all add: min_def)
  with assms show ?thesis
    by (simp add: splitContentByHeadings_def Let_def)
qed

lemma sectionBody_html:
  assumes "ps = paragraphsOf mc" and "ps \<noteq> []"
    and "c = nat \<lceil>rat_of_nat (length ps) / rat_of_nat (length hs)\<rceil>" and "i < length hs"
  shows "sectionBody (splitContentByHeadings mc hs) h i =
           htmlParagraphs (if take c (drop (i * c) ps) = [] then paragraphsOf (description h)
                           else take c (drop (i * c) ps))"
proof -
  let ?g = "take c (drop (i * c) ps)"
  from assms have nth: "nth_opt (splitContentByHeadings mc hs) i = Some (join_with [10, 10] ?g)"
    using splitContentByHeadings_take_drop [of mc hs] by (simp add: nth_opt_def)
  have sub: "set ?g \<subseteq> set ps" by (meson set_take_subset set_drop_subset subset_trans)
  from paragraphsOf_paragraphs [of mc] assms(1) have "list_all isParagraph ps" by simp
  with sub have g: "list_all isParagraph ?g" by (auto simp: list_all_iff)
  then have "[] \<notin> set ?g" by (auto simp: list_all_iff isParagraph_def)
  from join_with_Nil_iff [OF this, of "[10, 10]"]
  have empty: "join_with [10, 10] ?g = [] \<longleftrightarrow> ?g = []" .
  from paragraphsOf_join [OF g] have "formatTextToParagraphs (join_with [10, 10] ?g) = htmlParagraphs ?g"
    by (simp add: formatTextToParagraphs_html)
  with nth empty show ?thesis
    by (simp add: sectionBody_def formatTextToParagraphs_html)
qed


text \<open>
  Claim C8 (paragraphs are allotted to headings by position).  The main content is split at its
  blank-line boundaries: every piece kept is a paragraph, and a text made of paragraphs with an
  empty line between them splits into exactly these paragraphs.  With \<open>n \<ge> 1\<close> headings and
  \<open>P \<ge> 1\<close> paragraphs, and \<open>c\<close> the ceiling of \<open>P / n\<close>: group \<open>i\<close> is the run of paragraphs from
  index \<open>i * c\<close> up to \<open>(i + 1) * c\<close>, it has \<open>c\<close> paragraphs or what is left of them, the \<open>n\<close>
  groups together are the paragraph list, and there is one section per heading, the paragraphs
  of its group joined.  The HTML produced puts under the tag of heading \<open>i\<close>, in the order of the
  headings, the paragraphs of group \<open>i\<close> as \<open>p\<close> elements, or the paragraphs of the heading's
  description when the group is empty.
\<close>

theorem formatFullArticleToHTML_positional:
  assumes "fullArticle s = Some fa" and "hs = headings s" and "hs \<noteq> []"
    and "ps = paragraphsOf (mainContent fa)" and "ps \<noteq> []"
    and "n = length hs" and "c = nat \<lceil>rat_of_nat (length ps) / rat_of_nat n\<rceil>"
  shows "list_all isParagraph ps
       \<and> (\<forall>g. list_all isParagraph g \<longrightarrow> paragraphsOf (join_with [10, 10] g) = g)
       \<and> concat (map (\<lambda>i. take c (drop (i * c) ps)) [0..<n]) = ps
       \<and> (\<forall>i<n. length (take c (drop (i * c) ps)) = min c (length ps - i * c))
       \<and> splitContentByHeadings (mainContent fa) hs =
           map (\<lambda>i. join_with [10, 10] (take c (drop (i * c) ps))) [0..<n]
       \<and> formatFullArticleToHTML s =
           js_trim
             ((if introduction fa = [] then []
               else htmlDiv ''introduction'' (htmlParagraphs (paragraphsOf (introduction fa)))
                    @ [10] @ asc ''</div>'' @ [10, 10])
              @ htmlDiv ''main-content''
                  (concat (map (\<lambda>i.
                     asc ''<h'' @ js_nat_to_string (level (hs ! i)) @ asc ''>'' @ text' (hs ! i)
                     @ asc ''</h'' @ js_nat_to_string (level (hs ! i)) @ asc ''>'' @ [10]
                     @ htmlParagraphs (if take c (drop (i * c) ps) = []
                                       then paragraphsOf (description (hs ! i))
                                       else take c (drop (i * c) ps))
                     @ [10, 10]) [0..<n]))
              @ asc ''</div>'' @ [10, 10]
              @ (if conclusion fa = [] then []
                 else htmlDiv ''conclusion'' (htmlParagraphs (paragraphsOf (conclusion fa)))
                      @ [10] @ asc ''</div>''))"
proof -
  let ?mc = "mainContent fa"
  from assms(3,6) have n: "0 < n" by simp
  have p1: "list_all isParagraph ps" unfolding assms(4) by (rule paragraphsOf_paragraphs)
  have p2: "\<forall>g. list_all isParagraph g \<longrightarrow> paragraphsOf (join_with [10, 10] g) = g"
    using paragraphsOf_join by blast
  from ceiling_covers [OF n, of "length ps"] assms(7) have "length ps \<le> n * c" by simp
  with concat_groups [of c ps n]
  have p3: "concat (map (\<lambda>i. take c (drop (i * c) ps)) [0..<n]) = ps" by simp
  have p4: "\<forall>i<n. length (take c (drop (i * c) ps)) = min c (length ps - i * c)"
    by (simp add: min_def)
  from assms(4,5) have ne: "paragraphsOf ?mc \<noteq> []" by simp
  from splitContentByHeadings_take_drop [OF ne, of hs] assms(4,6,7)
  have p5: "splitContentByHeadings ?mc hs =
           map (\<lambda>i. join_with [10, 10] (take c (drop (i * c) ps))) [0..<n]" by simp
  from ne have mc: "?mc \<noteq> []" using paragraphsOf_Nil by auto
  define blk where "blk = (\<lambda>i.
                     asc ''<h'' @ js_nat_to_string (level (hs ! i)) @ asc ''>'' @ text' (hs ! i)
                     @ asc ''</h'' @ js_nat_to_string (level (hs ! i)) @ asc ''>'' @ [10]
                     @ htmlParagraphs (if take c (drop (i * c) ps) = []
                                       then paragraphsOf (description (hs ! i))
                                       else take c (drop (i * c) ps))
                     @ [10, 10])"
  have body: "sectionBody (splitContentByHeadings ?mc hs) (hs ! i) i =
      htmlParagraphs (if take c (drop (i * c) ps) = [] then paragraphsOf (description (hs ! i))
                      else take c (drop (i * c) ps))" if "i < n" for i
    using that assms(4,5,6,7) by (intro sectionBody_html) simp_all
  have block: "headingBlock (splitContentByHeadings ?mc hs) (hs ! i, i) = blk i" if "i < n" for i
    unfolding headingBlock_def blk_def fst_conv snd_conv body [OF that] headingTag_def
    by (simp only: append_assoc)
  have blocks: "map (headingBlock (splitContentByHeadings ?mc hs)) (zip hs [0..<n]) = map blk [0..<n]"
  proof (rule nth_equalityI)
    show "length (map (headingBlock (splitContentByHeadings ?mc hs)) (zip hs [0..<n])) =
          length (map blk [0..<n])" using assms(6) by simp
  next
    fix i assume "i < length (map (headingBlock (splitContentByHeadings ?mc hs)) (zip hs [0..<n]))"
    with assms(6) have i: "i < n" by simp
    with assms(6) have "zip hs [0..<n] ! i = (hs ! i, i)" by simp
    with i assms(6) block [OF i]
    show "map (headingBlock (splitContentByHeadings ?mc hs)) (zip hs [0..<n]) ! i = map blk [0..<n] ! i"
      by simp
  qed
  from n assms(6) have len: "0 < length hs" by simp
  have main: "mainContentHTML ?mc hs =
      htmlDiv ''main-content'' (concat (map blk [0..<n])) @ asc ''</div>'' @ [10, 10]"
    unfolding mainContentHTML_def htmlDiv_def using mc len blocks assms(6) by simp
  have p6: "formatFullArticleToHTML s =
           js_trim
             ((if introduction fa = [] then []
               else htmlDiv ''introduction'' (htmlParagraphs (paragraphsOf (introduction fa)))
                    @ [10] @ asc ''</div>'' @ [10, 10])
              @ htmlDiv ''main-content'' (concat (map blk [0..<n]))
              @ asc ''</div>'' @ [10, 10]
              @ (if conclusion fa = [] then []
                 else htmlDiv ''conclusion'' (htmlParagraphs (paragraphsOf (conclusion fa)))
                      @ [10] @ asc ''</div>''))"
    using assms(1,2) main
    by (simp add: formatFullArticleToHTML_def formatTextToParagraphs_html htmlDiv_def)
  from p1 p2 p3 p4 p5 p6 [unfolded blk_def] show ?thesis by blast
qed

theorem formatFullArticleToHTML_positional_witness:
  "formatFullArticleToHTML exampleSuggestion =
     asc ''<div class='' @ [34] @ asc ''main-content'' @ [34] @ asc ''>'' @ [10]
     @ asc ''<h2>A</h2>'' @ [10] @ asc ''<p>a<br>b</p>'' @ [10, 10]
     @ asc ''<h3>B</h3>'' @ [10] @ asc ''<p>c</p>'' @ [10, 10]
     @ asc ''<h2>C</h2>'' @ [10] @ asc ''<p>dC</p>'' @ [10, 10]
     @ asc ''</div>''
   \<and> splitContentByHeadings (mainContent exampleArticle) exampleHeadings =
       [asc ''a'' @ [10] @ asc ''b'', asc ''c'', []]
   \<and> paragraphsOf (asc ''x'' @ [10] @ asc ''y'' @ [10, 10] @ asc ''z'') =
       [asc ''x'' @ [10] @ asc ''y'', asc ''z'']"
proof -
  let ?ps = "[asc ''a'' @ [10] @ asc ''b'', asc ''c'']"
  let ?g = "[asc ''x'' @ [10] @ asc ''y'', asc ''z'']"
  have fa: "fullArticle exampleSuggestion = Some exampleArticle"
    and hs: "exampleHeadings = headings exampleSuggestion"
    by (simp_all add: exampleSuggestion_def)
  have ne: "exampleHeadings \<noteq> []" by (simp add: exampleHeadings_def)
  have ps: "?ps = paragraphsOf (mainContent exampleArticle)"
    by (simp add: exampleArticle_def paragraphsOf_def re_split_def paragraph_re_def re_ev)
  have n: "(3 :: nat) = length exampleHeadings" by (simp add: exampleHeadings_def)
  have "\<lceil>(2 :: rat) / 3\<rceil> = 1" by (rule ceiling_unique) simp_all
  then have c: "(1 :: nat) = nat \<lceil>rat_of_nat (length ?ps) / rat_of_nat 3\<rceil>" by simp
  note inst = formatFullArticleToHTML_positional [OF fa hs ne ps _ n c]
  have pne: "?ps \<noteq> []" by simp
  note r = inst [OF pne]
  have g: "list_all isParagraph ?g"
    by (simp add: isParagraph_def blankLineAt_def js_trim_def isWhiteSpace_def asc_def)
  from r g have 3: "paragraphsOf (join_with [10, 10] ?g) = ?g" by blast
  from r have 2: "splitContentByHeadings (mainContent exampleArticle) exampleHeadings =
      map (\<lambda>i. join_with [10, 10] (take 1 (drop (i * 1) ?ps))) [0..<3]" by blast
  have "paragraphsOf (asc ''dC'') = [asc ''dC'']"
    by (simp add: paragraphsOf_def re_split_def paragraph_re_def re_ev)
  then have d: "paragraphsOf [100, 67] = [[100, 67]]" by (simp add: asc_def)
  from r have 1: "formatFullArticleToHTML exampleSuggestion =
           js_trim
             ((if introduction exampleArticle = [] then []
               else htmlDiv ''introduction'' (htmlParagraphs (paragraphsOf (introduction exampleArticle)))
                    @ [10] @ asc ''</div>'' @ [10, 10])
              @ htmlDiv ''main-content''
                  (concat (map (\<lambda>i.
                     asc ''<h'' @ js_nat_to_string (level (exampleHeadings ! i)) @ asc ''>'' @ text' (exampleHeadings ! i)
                     @ asc ''</h'' @ js_nat_to_string (level (exampleHeadings ! i)) @ asc ''>'' @ [10]
                     @ htmlParagraphs (if take 1 (drop (i * 1) ?ps) = []
                                       then paragraphsOf (description (exampleHeadings ! i))
                                       else take 1 (drop (i * 1) ?ps))
                     @ [10, 10]) [0..<3]))
              @ asc ''</div>'' @ [10, 10]
              @ (if conclusion exampleArticle = [] then []
                 else htmlDiv ''conclusion'' (htmlParagraphs (paragraphsOf (conclusion exampleArticle)))
                      @ [10] @ asc ''</div>''))" by blast
  have u: "[0..<3] = [0, 1, 2]" by (simp add: upt_rec)
  have a: "formatFullArticleToHTML exampleSuggestion =
     asc ''<div class='' @ [34] @ asc ''main-content'' @ [34] @ asc ''>'' @ [10]
     @ asc ''<h2>A</h2>'' @ [10] @ asc ''<p>a<br>b</p>'' @ [10, 10]
     @ asc ''<h3>B</h3>'' @ [10] @ asc ''<p>c</p>'' @ [10, 10]
     @ asc ''<h2>C</h2>'' @ [10] @ asc ''<p>dC</p>'' @ [10, 10]
     @ asc ''</div>''"
    unfolding 1 u
    by (simp add: exampleArticle_def exampleHeadings_def d htmlDiv_def htmlParagraphs_def
        htmlParagraph_def js_nat_to_string_def js_trim_def isWhiteSpace_def asc_def)
  have b: "splitContentByHeadings (mainContent exampleArticle) exampleHeadings =
       [asc ''a'' @ [10] @ asc ''b'', asc ''c'', []]"
    unfolding 2 u by simp
  from a b 3 show ?thesis by simp
qed

section \<open>Properties of the SEO metrics\<close>

lemma bits_upper: "n < 2 ^ bits n"
proof (induction n rule: bits.induct)
  case 1
  then show ?case by simp
next
  case (2 n)
  have "Suc n < 2 * (Suc n div 2) + 2" by presburger
  also from 2 have "\<dots> \<le> 2 * 2 ^ bits (Suc n div 2)" by simp
  finally show ?case by simp
qed

lemma bits_lower: "0 < n \<Longrightarrow> 2 ^ (bits n - 1) \<le> n"
proof (induction n rule: bits.induct)
  case 1
  then show ?case by simp
next
  case (2 n)
  show ?case
  proof (cases "Suc n div 2 = 0")
    case True
    then show ?thesis by simp
  next
    case False
    then have pos: "0 < Suc n div 2" by simp
    then obtain k where k: "bits (Suc n div 2) = Suc k" by (cases "Suc n div 2") auto
    from "2.IH" [OF pos] k have "2 ^ k \<le> Suc n div 2" by simp
    then have "2 * 2 ^ k \<le> 2 * (Suc n div 2)" by simp
    also have "\<dots> \<le> Suc n" by presburger
    finally show ?thesis using k by simp
  qed
qed

lemma pow2_pos: "0 < pow2 e"
  by (simp add: pow2_def)

lemma ilog2_le:
  assumes "0 < x"
  shows "pow2 (ilog2 x) \<le> x"
proof (cases "1 \<le> x")
  case True
  let ?n = "nat \<lfloor>x\<rfloor>"
  from True have n: "0 < ?n" by simp
  then have b: "0 < bits ?n" by (cases ?n) auto
  from bits_lower [OF n] have "2 ^ (bits ?n - 1) \<le> ?n" .
  then have "rat_of_nat (2 ^ (bits ?n - 1)) \<le> rat_of_nat ?n" by (simp only: of_nat_le_iff)
  also have "\<dots> = of_int \<lfloor>x\<rfloor>" using True by simp
  also have "\<dots> \<le> x" by simp
  finally have "2 ^ (bits ?n - 1) \<le> x" by simp
  moreover from b have "nat (int (bits ?n) - 1) = bits ?n - 1" by simp
  ultimately show ?thesis using True b by (simp add: ilog2_def pow2_def)
next
  case False
  let ?N = "nat \<lceil>1 / x\<rceil>"
  let ?k = "bits (?N - 1)"
  from False assms have "1 < 1 / x" by simp
  then have c: "1 < \<lceil>1 / x\<rceil>" by (simp add: less_ceiling_iff)
  have "?N - 1 < 2 ^ ?k" by (rule bits_upper)
  then have "?N \<le> 2 ^ ?k" by linarith
  then have "int ?N \<le> int (2 ^ ?k)" by (simp only: of_nat_le_iff)
  moreover have "int ?N = \<lceil>1 / x\<rceil>" using c by simp
  ultimately have "\<lceil>1 / x\<rceil> \<le> int (2 ^ ?k)" by (simp only:)
  then have "rat_of_int \<lceil>1 / x\<rceil> \<le> rat_of_int (int (2 ^ ?k))" by (simp only: of_int_le_iff)
  then have "rat_of_int \<lceil>1 / x\<rceil> \<le> 2 ^ ?k" by simp
  moreover have "1 / x \<le> rat_of_int \<lceil>1 / x\<rceil>" by (rule le_of_int_ceiling)
  ultimately have "1 / x \<le> 2 ^ ?k" by linarith
  with assms have "1 \<le> 2 ^ ?k * x" by (simp add: pos_divide_le_eq)
  then have le: "1 / 2 ^ ?k \<le> x" by (simp add: pos_divide_le_eq mult.commute)
  show ?thesis
  proof (cases "?k = 0")
    case True
    with le False show ?thesis by (simp add: ilog2_def pow2_def)
  next
    case k: False
    with le False show ?thesis by (simp add: ilog2_def pow2_def)
  qed
qed

lemma roundHalfEven_error: "\<bar>of_int (roundHalfEven m) - m\<bar> \<le> 1 / 2"
proof -
  let ?f = "rat_of_int \<lfloor>m\<rfloor>"
  have r: "?f \<le> m" "m < ?f + 1" by linarith+
  consider (a) "m - ?f < 1 / 2" | (b) "1 / 2 < m - ?f" | (c) "m - ?f = 1 / 2" by linarith
  then show ?thesis
  proof cases
    case a
    then have "roundHalfEven m = \<lfloor>m\<rfloor>" by (simp add: roundHalfEven_def)
    with a r show ?thesis by (simp only: abs_le_iff) linarith
  next
    case b
    then have "roundHalfEven m = \<lfloor>m\<rfloor> + 1" by (simp add: roundHalfEven_def)
    then have "rat_of_int (roundHalfEven m) = ?f + 1" by simp
    with b r show ?thesis by (simp only: abs_le_iff) linarith
  next
    case c
    then have "roundHalfEven m = \<lfloor>m\<rfloor> \<or> roundHalfEven m = \<lfloor>m\<rfloor> + 1"
      by (simp add: roundHalfEven_def)
    then have "rat_of_int (roundHalfEven m) = ?f \<or> rat_of_int (roundHalfEven m) = ?f + 1"
      by auto
    with c show ?thesis by (auto simp only: abs_le_iff)
  qed
qed

lemma roundHalfEven_nonneg: "0 \<le> m \<Longrightarrow> 0 \<le> roundHalfEven m"
  unfolding roundHalfEven_def by auto

lemma fl_zero [simp]: "fl 0 = 0"
  by (simp add: fl_def)

lemma fl_nonneg: "0 \<le> x \<Longrightarrow> 0 \<le> fl x"
proof (cases "x = 0")
  case True
  then show ?thesis by simp
next
  case False
  assume "0 \<le> x"
  with False have x: "0 < x" by simp
  let ?p = "pow2 (ilog2 x)"
  from x pow2_pos [of "ilog2 x"] have "0 \<le> x / ?p * 2 ^ 52" by simp
  from roundHalfEven_nonneg [OF this] have "0 \<le> rat_of_int (roundHalfEven (x / ?p * 2 ^ 52))"
    by simp
  with pow2_pos [of "ilog2 x"] have "0 \<le> rat_of_int (roundHalfEven (x / ?p * 2 ^ 52)) * ?p / 2 ^ 52"
    by simp
  with x show ?thesis by (simp add: fl_def)
qed

lemma fl_error:
  assumes "0 \<le> x"
  shows "\<bar>fl x - x\<bar> \<le> x / 2 ^ 53"
proof (cases "x = 0")
  case True
  then show ?thesis by simp
next
  case False
  with assms have x: "0 < x" by simp
  define c :: rat where "c = 2 ^ 52"
  have c: "0 < c" by (simp add: c_def)
  define p where "p = pow2 (ilog2 x)"
  define m where "m = x / p * c"
  define r where "r = rat_of_int (roundHalfEven m)"
  have p: "0 < p" unfolding p_def by (rule pow2_pos)
  have flx: "fl x = r * p / c" using x by (simp add: fl_def r_def m_def p_def c_def)
  have xm: "x = m * p / c" using p c by (simp add: m_def)
  have "fl x - x = (r - m) * p / c"
    unfolding flx by (subst xm) (simp only: left_diff_distrib diff_divide_distrib)
  then have "\<bar>fl x - x\<bar> = \<bar>r - m\<bar> * (p / c)"
    using p c by (simp only: times_divide_eq_right [symmetric] abs_mult abs_of_pos divide_pos_pos)
  also have "\<dots> \<le> (1 / 2) * (p / c)"
    using roundHalfEven_error [of m] p c unfolding r_def by (intro mult_right_mono) simp_all
  also have "\<dots> = p / 2 ^ 53" by (simp add: c_def)
  also have "\<dots> \<le> x / 2 ^ 53" using ilog2_le [OF x] unfolding p_def
    by (intro divide_right_mono) simp_all
  finally show ?thesis .
qed

lemma fl_upper:
  assumes "0 \<le> x" and "x \<le> b"
  shows "fl x \<le> b * (1001 / 1000)"
proof -
  from fl_error [OF assms(1)] have "fl x \<le> x + x / 2 ^ 53" by linarith
  also have "x / 2 ^ 53 \<le> x / 1000" using assms(1) by (intro divide_left_mono) simp_all
  finally have "fl x \<le> x * (1001 / 1000)" by simp
  also have "\<dots> \<le> b * (1001 / 1000)" using assms(2) by simp
  finally show ?thesis .
qed

lemma clampScore_range: "0 \<le> clampScore s \<and> clampScore s \<le> 100"
  by (simp add: clampScore_def)

lemma calculateTitleScore_range: "0 \<le> calculateTitleScore t \<and> calculateTitleScore t \<le> 100"
  unfolding calculateTitleScore_def using clampScore_range by (cases "t = []") simp_all

lemma calculateMetaDescriptionScore_range:
  "0 \<le> calculateMetaDescriptionScore m \<and> calculateMetaDescriptionScore m \<le> 100"
  unfolding calculateMetaDescriptionScore_def using clampScore_range by (cases "m = []") simp_all

lemma calculateContentStructureScore_range:
  "0 \<le> calculateContentStructureScore c hc \<and> calculateContentStructureScore c hc \<le> 100"
  unfolding calculateContentStructureScore_def Let_def using clampScore_range
  by (cases "c = []") simp_all

lemma calculateKeywordOptimizationScore_range:
  "0 \<le> calculateKeywordOptimizationScore k \<and> calculateKeywordOptimizationScore k \<le> 100"
  unfolding calculateKeywordOptimizationScore_def using clampScore_range
  by (cases "k = []") simp_all

lemma weighted_bounds:
  assumes "0 \<le> s" and "s \<le> 100" and "0 \<le> w" and "100 * w \<le> b"
  shows "0 \<le> fl (rat_of_int s * w) \<and> fl (rat_of_int s * w) \<le> b * (1001 / 1000)"
proof -
  from assms(1,3) have nn: "0 \<le> rat_of_int s * w" by simp
  from assms(2) have "rat_of_int s \<le> 100" by simp
  with assms(3) have "rat_of_int s * w \<le> 100 * w" by (intro mult_right_mono)
  with assms(4) have "rat_of_int s * w \<le> b" by simp
  from fl_nonneg [OF nn] fl_upper [OF nn this] show ?thesis by simp
qed

lemma sum_bounds:
  assumes "0 \<le> x \<and> x \<le> a" and "0 \<le> y \<and> y \<le> b"
  shows "0 \<le> fl (x + y) \<and> fl (x + y) \<le> (a + b) * (1001 / 1000)"
proof -
  from assms have nn: "0 \<le> x + y" and le: "x + y \<le> a + b" by simp_all
  from fl_nonneg [OF nn] fl_upper [OF nn le] show ?thesis by simp
qed

lemma calculateOverallScore_range:
  assumes "0 \<le> t \<and> t \<le> 100" "0 \<le> m \<and> m \<le> 100" "0 \<le> c \<and> c \<le> 100" "0 \<le> k \<and> k \<le> 100"
  shows "0 \<le> calculateOverallScore t m c k \<and> calculateOverallScore t m c k \<le> 100"
proof -
  define a1 where "a1 = fl (rat_of_int t * (1 / 4))"
  define a2 where "a2 = fl (rat_of_int m * double_0_2)"
  define a3 where "a3 = fl (rat_of_int c * double_0_35)"
  define a4 where "a4 = fl (rat_of_int k * double_0_2)"
  define s1 where "s1 = fl (a1 + a2)"
  define s2 where "s2 = fl (s1 + a3)"
  define s3 where "s3 = fl (s2 + a4)"
  have b1: "0 \<le> a1 \<and> a1 \<le> 25 * (1001 / 1000)"
    unfolding a1_def using assms(1) by (intro weighted_bounds) simp_all
  have b2: "0 \<le> a2 \<and> a2 \<le> (2001 / 100) * (1001 / 1000)"
    unfolding a2_def using assms(2) by (intro weighted_bounds) (simp_all add: double_0_2_def)
  have b3: "0 \<le> a3 \<and> a3 \<le> 35 * (1001 / 1000)"
    unfolding a3_def using assms(3) by (intro weighted_bounds) (simp_all add: double_0_35_def)
  have b4: "0 \<le> a4 \<and> a4 \<le> (2001 / 100) * (1001 / 1000)"
    unfolding a4_def using assms(4) by (intro weighted_bounds) (simp_all add: double_0_2_def)
  note c1 = sum_bounds [OF b1 b2, folded s1_def]
  note c2 = sum_bounds [OF c1 b3, folded s2_def]
  note c3 = sum_bounds [OF c2 b4, folded s3_def]
  from c3 have "0 \<le> s3" and "s3 < 201 / 2" by simp_all
  then have "0 \<le> s3 + 1 / 2" "s3 + 1 / 2 < 101" by linarith+
  then have "0 \<le> \<lfloor>s3 + 1 / 2\<rfloor>" "\<lfloor>s3 + 1 / 2\<rfloor> \<le> 100"
    by (simp_all add: floor_le_iff)
  then show ?thesis
    by (simp add: calculateOverallScore_def js_round_def s3_def s2_def s1_def a1_def a2_def a3_def a4_def)
qed

lemma calculateOverallScore_zero: "calculateOverallScore 0 0 0 0 = 0"
proof -
  have "\<lfloor>(1 :: rat) / 2\<rfloor> = 0" by (simp add: floor_eq_iff)
  then show ?thesis by (simp add: calculateOverallScore_def js_round_def)
qed

lemma analyzeKeywords_empty: "analyzeKeywords lc srt [] tks = []"
  by (simp add: analyzeKeywords_def)

text \<open>
  Claim C6 (the overall score is an integer from 0 to 100, and 0 on empty input).
  \<open>analyzeSEO\<close> has no operation that can raise, so it is a total function.  Each of the four
  scores is clamped to \<open>[0, 100]\<close>; the weighted sum is computed in doubles, and the rounding of
  its three sums and four products cannot carry it below 0 or to 100.5, so
  \<open>Math.round\<close> gives an integer from 0 to 100.  When title, content and meta description are
  empty, every score is 0 and so is the overall score.
\<close>

theorem analyzeSEO_overallScore_range:
  "0 \<le> overallScore (analyzeSEO lc srt newId now aid input)
   \<and> overallScore (analyzeSEO lc srt newId now aid input) \<le> 100
   \<and> (in_title input = [] \<and> in_content input = [] \<and> in_metaDescription input = []
        \<longrightarrow> overallScore (analyzeSEO lc srt newId now aid input) = 0)"
proof -
  have "0 \<le> overallScore (analyzeSEO lc srt newId now aid input)
      \<and> overallScore (analyzeSEO lc srt newId now aid input) \<le> 100"
    unfolding analyzeSEO_def Let_def
    using calculateOverallScore_range [OF calculateTitleScore_range
        calculateMetaDescriptionScore_range calculateContentStructureScore_range
        calculateKeywordOptimizationScore_range]
    by simp
  moreover have "overallScore (analyzeSEO lc srt newId now aid input) = 0"
    if "in_title input = [] \<and> in_content input = [] \<and> in_metaDescription input = []"
    using that
    by (simp add: analyzeSEO_def Let_def calculateTitleScore_def calculateMetaDescriptionScore_def
        calculateContentStructureScore_def extractPlainText_def analyzeKeywords_empty
        calculateKeywordOptimizationScore_def calculateOverallScore_zero)
  ultimately show ?thesis by blast
qed

theorem analyzeSEO_overallScore_range_witness:
  "overallScore (analyzeSEO asciiLower (\<lambda>entries. entries) (asc ''seo_1'') 0 (asc ''a1'')
      \<lparr>in_title = [], in_content = [], in_metaDescription = [], in_keywords = Some [asc ''seo'']\<rparr>) = 0
   \<and> 0 \<le> overallScore (analyzeSEO asciiLower (\<lambda>entries. entries) (asc ''seo_2'') 0 (asc ''a2'')
      \<lparr>in_title = asc ''SEO guide 2024'', in_content = asc ''<h1>SEO</h1><p>seo is seo</p>'',
       in_metaDescription = asc ''A guide'', in_keywords = None\<rparr>)
   \<and> overallScore (analyzeSEO asciiLower (\<lambda>entries. entries) (asc ''seo_2'') 0 (asc ''a2'')
      \<lparr>in_title = asc ''SEO guide 2024'', in_content = asc ''<h1>SEO</h1><p>seo is seo</p>'',
       in_metaDescription = asc ''A guide'', in_keywords = None\<rparr>) \<le> 100"
  using analyzeSEO_overallScore_range [of asciiLower "\<lambda>entries. entries" "asc ''seo_1''" 0 "asc ''a1''"
      "\<lparr>in_title = [], in_content = [], in_metaDescription = [], in_keywords = Some [asc ''seo'']\<rparr>"]
    analyzeSEO_overallScore_range [of asciiLower "\<lambda>entries. entries" "asc ''seo_2''" 0 "asc ''a2''"
      "\<lparr>in_title = asc ''SEO guide 2024'', in_content = asc ''<h1>SEO</h1><p>seo is seo</p>'',
        in_metaDescription = asc ''A guide'', in_keywords = None\<rparr>"]
  by simp










lemma bits_numeral: "bits (numeral k) = Suc (bits (numeral k div 2))"
  by (metis bits.simps(2) numeral_eq_Suc)

lemma bits_one: "bits (Suc 0) = Suc 0"
  by simp

lemma ilog2_small: "x < 1 \<Longrightarrow> \<lceil>1 / x\<rceil> = c \<Longrightarrow> bits (nat c - 1) = b \<Longrightarrow> ilog2 x = - int b"
  by (simp add: ilog2_def)

lemma ilog2_big: "1 \<le> x \<Longrightarrow> \<lfloor>x\<rfloor> = c \<Longrightarrow> bits (nat c) = b \<Longrightarrow> ilog2 x = int b - 1"
  by (simp add: ilog2_def)

lemma fl_round_down:
  assumes "0 < x" and "ilog2 x = e" and "\<lfloor>x / pow2 e * 2 ^ 52\<rfloor> = f"
    and "x / pow2 e * 2 ^ 52 - of_int f < 1 / 2"
  shows "fl x = of_int f * pow2 e / 2 ^ 52"
proof -
  from assms(3,4) have "roundHalfEven (x / pow2 e * 2 ^ 52) = f"
    unfolding roundHalfEven_def by (simp only: if_True)
  with assms(1,2) show ?thesis by (simp add: fl_def)
qed

text \<open>
  An example of the rounding: a word that occurs 23 times among 160 words has the density
  14.37, although 23 / 160 is 14.375 exactly: the quotient and the two products by 100 are
  rounded to doubles, and \<open>Math.round\<close> is given a number below 1437.5.
\<close>

lemma densityOf_example: "densityOf (Some 23) 160 = Some (8089590830664253 / 562949953421312)"
proof -
  have b6: "bits 6 = 3" and b14: "bits 14 = 4" and b1437: "bits 1437 = 11"
    by (simp_all add: bits_numeral bits_one)
  have "\<lceil>1 / ((23 :: rat) / 160)\<rceil> = 7" by (rule ceiling_unique) simp_all
  then have e1: "ilog2 (23 / 160) = - 3"
    using b6 by (intro ilog2_small [where c = 7 and b = 3, simplified]) simp_all
  have f1: "\<lfloor>(23 :: rat) / 160 / pow2 (- 3) * 2 ^ 52\<rfloor> = 5179139571476070"
    by (rule floor_unique) (simp_all add: pow2_def)
  have d1: "fl (23 / 160) = 2589569785738035 / 18014398509481984"
    using fl_round_down [OF _ e1 f1] by (simp add: pow2_def)
  have "\<lfloor>(64739244643450875 :: rat) / 4503599627370496\<rfloor> = 14" by (rule floor_unique) simp_all
  then have e2: "ilog2 (64739244643450875 / 4503599627370496) = 3"
    using b14 by (intro ilog2_big [where c = 14 and b = 4, simplified]) simp_all
  have f2: "\<lfloor>(64739244643450875 :: rat) / 4503599627370496 / pow2 3 * 2 ^ 52\<rfloor> = 8092405580431359"
    by (rule floor_unique) (simp_all add: pow2_def)
  have d2: "fl (64739244643450875 / 4503599627370496) = 8092405580431359 / 562949953421312"
    using fl_round_down [OF _ e2 f2] by (simp add: pow2_def)
  have "\<lfloor>(202310139510783975 :: rat) / 140737488355328\<rfloor> = 1437" by (rule floor_unique) simp_all
  then have e3: "ilog2 (202310139510783975 / 140737488355328) = 10"
    using b1437 by (intro ilog2_big [where c = 1437 and b = 11, simplified]) simp_all
  have f3: "\<lfloor>(202310139510783975 :: rat) / 140737488355328 / pow2 10 * 2 ^ 52\<rfloor> = 6322191859711999"
    by (rule floor_unique) (simp_all add: pow2_def)
  have d3: "fl (202310139510783975 / 140737488355328) = 6322191859711999 / 4398046511104"
    using fl_round_down [OF _ e3 f3] by (simp add: pow2_def)
  have k: "js_round (6322191859711999 / 4398046511104) = 1437"
    unfolding js_round_def by (rule floor_unique) simp_all
  have "\<lfloor>(1437 :: rat) / 100\<rfloor> = 14" by (rule floor_unique) simp_all
  then have e4: "ilog2 (1437 / 100) = 3"
    using b14 by (intro ilog2_big [where c = 14 and b = 4, simplified]) simp_all
  have f4: "\<lfloor>(1437 :: rat) / 100 / pow2 3 * 2 ^ 52\<rfloor> = 8089590830664253"
    by (rule floor_unique) (simp_all add: pow2_def)
  have d4: "fl (1437 / 100) = 8089590830664253 / 562949953421312"
    using fl_round_down [OF _ e4 f4] by (simp add: pow2_def)
  show ?thesis
    by (simp add: densityOf_def roundedDensity_def d1 d2 d3 k d4)
qed

section \<open>Properties of the prompt history\<close>

lemma findIndex_Some: "findIndex p xs = Some i \<Longrightarrow> i < length xs \<and> p (xs ! i)"
proof (induction xs arbitrary: i)
  case Nil
  then show ?case by simp
next
  case (Cons x xs)
  then show ?case by (cases "p x") auto
qed

lemma addResultingArticle_present:
  assumes "findIndex (\<lambda>item. id' item = promptId) (storage st) = Some i"
    and "list_ex (\<lambda>e. articleId e = articleId article) (resultingArticles (storage st ! i))"
  shows "addResultingArticle st promptId article = (True, st)"
  using assms by (simp add: addResultingArticle_def)

lemma addResultingArticle_distinct:
  assumes "articleIdsDistinct st"
  shows "articleIdsDistinct (snd (addResultingArticle st promptId article))"
proof (cases "findIndex (\<lambda>item. id' item = promptId) (storage st)")
  case None
  with assms show ?thesis by (simp add: addResultingArticle_def)
next
  case (Some i)
  then have i: "i < length (storage st)" by (auto dest: findIndex_Some)
  let ?item = "storage st ! i"
  have d: "distinct (map articleId (resultingArticles ?item))"
    using assms i by (simp add: articleIdsDistinct_def list_all_length)
  show ?thesis
  proof (cases "list_ex (\<lambda>e. articleId e = articleId article) (resultingArticles ?item)")
    case True
    with Some assms show ?thesis by (simp add: addResultingArticle_def)
  next
    case False
    then have fresh: "articleId article \<notin> set (map articleId (resultingArticles ?item))"
      by (auto simp: list_ex_iff)
    have "list_all (\<lambda>item. distinct (map articleId (resultingArticles item)))
            ((storage st)[i := ?item\<lparr>resultingArticles := resultingArticles ?item @ [article]\<rparr>])"
      unfolding list_all_length
    proof (intro allI impI)
      fix n
      assume "n < length ((storage st)[i := ?item\<lparr>resultingArticles := resultingArticles ?item @ [article]\<rparr>])"
      then have n: "n < length (storage st)" by simp
      show "distinct (map articleId (resultingArticles
              ((storage st)[i := ?item\<lparr>resultingArticles := resultingArticles ?item @ [article]\<rparr>] ! n)))"
      proof (cases "n = i")
        case True
        with i d fresh show ?thesis by simp
      next
        case False
        with n assms show ?thesis by (simp add: articleIdsDistinct_def list_all_length)
      qed
    qed
    with Some False show ?thesis
      by (simp add: addResultingArticle_def articleIdsDistinct_def Let_def)
  qed
qed

lemma addResultingArticles_distinct:
  "articleIdsDistinct st \<Longrightarrow> articleIdsDistinct (addResultingArticles st calls)"
proof (induction calls arbitrary: st)
  case Nil
  then show ?case by simp
next
  case (Cons c calls)
  obtain promptId article where c: "c = (promptId, article)" by (cases c)
  from Cons.prems have "articleIdsDistinct (snd (addResultingArticle st promptId article))"
    by (rule addResultingArticle_distinct)
  then show ?case using Cons.IH c by simp
qed

text \<open>
  Claim C9 (\<open>addResultingArticle\<close> is an idempotent append).  When the record with the given id
  already lists the article id, the call changes nothing and returns \<open>true\<close>; and a store in
  which no record lists an article id twice stays so under any sequence of calls.
\<close>

theorem addResultingArticle_idempotent_append:
  "(findIndex (\<lambda>item. id' item = promptId) (storage st) = Some i \<and>
    list_ex (\<lambda>e. articleId e = articleId article) (resultingArticles (storage st ! i))
      \<longrightarrow> addResultingArticle st promptId article = (True, st))
   \<and> (articleIdsDistinct st \<longrightarrow> articleIdsDistinct (addResultingArticles st calls))"
  using addResultingArticle_present addResultingArticles_distinct by blast

lemma addPromptHistory_new_record:
  assumes "addPromptHistory st0 t1 id1 g1 d1 = (r1, st1)"
    and "length (storage st1) = Suc (length (storage st0))"
  shows "r1 = newPromptHistory d1 id1 g1
       \<and> st1 = \<lparr>storage = r1 # storage st0, lastPromptHistoryId = Some id1, lastPromptTimestamp = t1\<rparr>"
  using assms
  by (auto simp: addPromptHistory_def Let_def newPromptHistory_def split: option.splits if_splits)

lemma addPromptHistory_repeat:
  assumes r1: "r1 = newPromptHistory d1 id1 g1"
    and st1: "st1 = \<lparr>storage = r1 # h0, lastPromptHistoryId = Some id1, lastPromptTimestamp = t1\<rparr>"
    and same: "originalPrompt d2 = originalPrompt d1" "siteId d2 = siteId d1" "modelUsed d2 = modelUsed d1"
    and gen: "t1 \<le> g1"
    and near: "t2 - t1 < 30000"
  shows "fst (addPromptHistory st1 t2 id2 g2 d2) = r1
       \<and> storage (snd (addPromptHistory st1 t2 id2 g2 d2)) = storage st1"
proof -
  have idr: "id' r1 = id1" using r1 by (simp add: newPromptHistory_def)
  have dup: "recentDuplicateOf d2 t2 r1"
    using r1 same gen near by (simp add: recentDuplicateOf_def newPromptHistory_def)
  show ?thesis
    using idr dup st1 by (simp add: addPromptHistory_def Let_def)
qed

text \<open>
  Claim C7 as stated fails when the first of the two calls is itself answered from the store.
  A record is added at time 1000; two further calls with the same prompt, site and model follow
  at 11000 and 12000: both return the stored record and the store's length does not change
  across them.  And when the first of two calls with prompt \<open>q\<close> comes within 5 seconds of an
  earlier add of prompt \<open>p\<close>, it returns that earlier record without looking at its data; the
  second call, 3 seconds later, stores a new record, so the two ids differ.
\<close>

theorem addPromptHistory_twice_counterexample:
  "(let s1 = snd (addPromptHistory emptyHistoryStore 1000 (asc ''a'') 1000 (examplePrompt (asc ''p'')));
        c2 = addPromptHistory s1 11000 (asc ''b'') 11000 (examplePrompt (asc ''p''));
        c3 = addPromptHistory (snd c2) 12000 (asc ''c'') 12000 (examplePrompt (asc ''p''))
    in length (storage s1) = 1 \<and> length (storage (snd c3)) = 1
       \<and> id' (fst c2) = asc ''a'' \<and> id' (fst c3) = asc ''a'')
   \<and> (let s1 = snd (addPromptHistory emptyHistoryStore 1000 (asc ''a'') 1000 (examplePrompt (asc ''p'')));
        c2 = addPromptHistory s1 4000 (asc ''b'') 4000 (examplePrompt (asc ''q''));
        c3 = addPromptHistory (snd c2) 7000 (asc ''c'') 7000 (examplePrompt (asc ''q''))
    in id' (fst c2) = asc ''a'' \<and> id' (fst c3) = asc ''c''
       \<and> length (storage s1) = 1 \<and> length (storage (snd c3)) = 2)"
  by (simp add: addPromptHistory_def emptyHistoryStore_def Let_def truthy_string_def
      newPromptHistory_def recentDuplicateOf_def examplePrompt_def asc_def)

text \<open>
  Claim C7, amended: when the first call stores a new record (it is answered by neither duplicate
  rule), a second call with the same prompt, site and model made less than 30 seconds after it
  returns that same record and leaves the stored array as it is, so the length has grown by
  exactly 1 over the two calls.  The record's creation time is read after \<open>now\<close>
  (\<open>t1 \<le> g1\<close>).
\<close>

theorem addPromptHistory_twice:
  assumes "addPromptHistory st0 t1 id1 g1 d1 = (r1, st1)"
    and "length (storage st1) = Suc (length (storage st0))"
    and "originalPrompt d2 = originalPrompt d1" "siteId d2 = siteId d1" "modelUsed d2 = modelUsed d1"
    and "t1 \<le> g1" and "t2 - t1 < 30000"
    and "addPromptHistory st1 t2 id2 g2 d2 = (r2, st2)"
  shows "length (storage st2) = length (storage st0) + 1
       \<and> r2 = r1 \<and> id' r2 = id' r1 \<and> storage st2 = storage st1"
proof -
  from addPromptHistory_new_record [OF assms(1,2)]
  have r1: "r1 = newPromptHistory d1 id1 g1"
    and st1: "st1 = \<lparr>storage = r1 # storage st0, lastPromptHistoryId = Some id1,
                     lastPromptTimestamp = t1\<rparr>"
    by simp_all
  from addPromptHistory_repeat [OF r1 st1 assms(3,4,5,6,7), of id2 g2] assms(8)
  have "r2 = r1" and "storage st2 = storage st1" by simp_all
  with assms(2) show ?thesis by simp
qed

theorem addPromptHistory_twice_witness:
  "addPromptHistory emptyHistoryStore 1000 (asc ''a'') 1001 (examplePrompt (asc ''p'')) =
     (newPromptHistory (examplePrompt (asc ''p'')) (asc ''a'') 1001,
      \<lparr>storage = [newPromptHistory (examplePrompt (asc ''p'')) (asc ''a'') 1001],
       lastPromptHistoryId = Some (asc ''a''), lastPromptTimestamp = 1000\<rparr>)
   \<and> addPromptHistory
        \<lparr>storage = [newPromptHistory (examplePrompt (asc ''p'')) (asc ''a'') 1001],
         lastPromptHistoryId = Some (asc ''a''), lastPromptTimestamp = 1000\<rparr>
        21000 (asc ''b'') 21001 (examplePrompt (asc ''p'')) =
     (newPromptHistory (examplePrompt (asc ''p'')) (asc ''a'') 1001,
      \<lparr>storage = [newPromptHistory (examplePrompt (asc ''p'')) (asc ''a'') 1001],
       lastPromptHistoryId = Some (asc ''a''), lastPromptTimestamp = 21000\<rparr>)
   \<and> length (storage
        \<lparr>storage = [newPromptHistory (examplePrompt (asc ''p'')) (asc ''a'') 1001],
         lastPromptHistoryId = Some (asc ''a''), lastPromptTimestamp = 21000\<rparr>) =
       length (storage emptyHistoryStore) + 1"
proof -
  let ?d = "examplePrompt (asc ''p'')"
  let ?r = "newPromptHistory ?d (asc ''a'') 1001"
  let ?s1 = "\<lparr>storage = [?r], lastPromptHistoryId = Some (asc ''a''), lastPromptTimestamp = 1000\<rparr>"
  let ?s2 = "\<lparr>storage = [?r], lastPromptHistoryId = Some (asc ''a''), lastPromptTimestamp = 21000\<rparr>"
  have c1: "addPromptHistory emptyHistoryStore 1000 (asc ''a'') 1001 ?d = (?r, ?s1)"
    by (simp add: addPromptHistory_def emptyHistoryStore_def Let_def newPromptHistory_def)
  have c2: "addPromptHistory ?s1 21000 (asc ''b'') 21001 ?d = (?r, ?s2)"
    by (simp add: addPromptHistory_def Let_def newPromptHistory_def recentDuplicateOf_def
        truthy_string_def)
  have len: "length (storage ?s1) = Suc (length (storage emptyHistoryStore))"
    by (simp add: emptyHistoryStore_def)
  from addPromptHistory_twice [OF c1 len refl refl refl _ _ c2]
  have "length (storage ?s2) = length (storage emptyHistoryStore) + 1" by simp
  with c1 c2 show ?thesis by simp
qed

theorem addResultingArticle_idempotent_append_witness:
  "addResultingArticle
     \<lparr>storage = [(newPromptHistory (examplePrompt (asc ''p'')) (asc ''h1'') 1000)
                   \<lparr>resultingArticles :=
                      [\<lparr>articleId = asc ''a1'', title = asc ''t'', status = draft, createdAt = asc ''c''\<rparr>]\<rparr>],
      lastPromptHistoryId = None, lastPromptTimestamp = 0\<rparr>
     (asc ''h1'')
     \<lparr>articleId = asc ''a1'', title = asc ''t2'', status = published, createdAt = asc ''c2''\<rparr> =
   (True,
    \<lparr>storage = [(newPromptHistory (examplePrompt (asc ''p'')) (asc ''h1'') 1000)
                   \<lparr>resultingArticles :=
                      [\<lparr>articleId = asc ''a1'', title = asc ''t'', status = draft, createdAt = asc ''c''\<rparr>]\<rparr>],
      lastPromptHistoryId = None, lastPromptTimestamp = 0\<rparr>)
   \<and> articleIdsDistinct
        (addResultingArticles
           \<lparr>storage = [newPromptHistory (examplePrompt (asc ''p'')) (asc ''h1'') 1000],
            lastPromptHistoryId = None, lastPromptTimestamp = 0\<rparr>
           [(asc ''h1'', \<lparr>articleId = asc ''a1'', title = asc ''t'', status = draft, createdAt = asc ''c''\<rparr>),
            (asc ''h1'', \<lparr>articleId = asc ''a1'', title = asc ''t2'', status = published, createdAt = asc ''c2''\<rparr>)])"
proof -
  let ?a1 = "\<lparr>articleId = asc ''a1'', title = asc ''t'', status = draft, createdAt = asc ''c''\<rparr>"
  let ?a2 = "\<lparr>articleId = asc ''a1'', title = asc ''t2'', status = published, createdAt = asc ''c2''\<rparr>"
  let ?r = "newPromptHistory (examplePrompt (asc ''p'')) (asc ''h1'') 1000"
  let ?st = "\<lparr>storage = [?r\<lparr>resultingArticles := [?a1]\<rparr>],
              lastPromptHistoryId = None, lastPromptTimestamp = 0\<rparr>"
  let ?base = "\<lparr>storage = [?r], lastPromptHistoryId = None, lastPromptTimestamp = 0\<rparr>"
  have idx: "findIndex (\<lambda>item. id' item = asc ''h1'') (storage ?st) = Some 0"
    by (simp add: newPromptHistory_def)
  have ex: "list_ex (\<lambda>e. articleId e = articleId ?a2) (resultingArticles (storage ?st ! 0))"
    by simp
  have inv: "articleIdsDistinct ?base"
    by (simp add: articleIdsDistinct_def newPromptHistory_def)
  from addResultingArticle_idempotent_append
    [where st = ?st and promptId = "asc ''h1''" and i = 0 and article = ?a2]
  have one: "addResultingArticle ?st (asc ''h1'') ?a2 = (True, ?st)"
    using idx ex by blast
  from addResultingArticle_idempotent_append
    [where st = ?base and calls = "[(asc ''h1'', ?a1), (asc ''h1'', ?a2)]"]
  have two: "articleIdsDistinct (addResultingArticles ?base [(asc ''h1'', ?a1), (asc ''h1'', ?a2)])"
    using inv by blast
  from one two show ?thesis by simp
qed

end
